theory Spec2Isabelle
  imports Main
begin

section \<open>Mesh-tensor annotation helpers of tilelang (annotate\_mesh\_tensor.py)\<close>

text \<open>
  A shallow embedding of \<^verbatim>\<open>src/tilelang/language/annotate_mesh_tensor.py\<close>.
  The factory \<^verbatim>\<open>mesh_tensor_functions\<close> closes three functions over two variables,
  \<^verbatim>\<open>_mesh_shape\<close> and \<^verbatim>\<open>_mesh_tensor_info\<close>; here the two variables are the fields
  of a record that every function receives, and the one function that rebinds
  \<^verbatim>\<open>_mesh_tensor_info\<close> returns the record updated.
\<close>

subsection \<open>Python values\<close>

text \<open>
  The metadata is dynamically typed: the source inspects it with \<^verbatim>\<open>isinstance\<close>,
  \<^verbatim>\<open>in\<close> and subscripts. Dictionaries are association lists in insertion order with
  string keys (the only keys the source asks for); a well-formed dictionary has distinct
  keys and \<open>map_of\<close> reads it.
\<close>

datatype pyval =
    PNone
  | PInt int
  | PStr string
  | PTuple "pyval list"
  | PList "pyval list"
  | PDict "(string \<times> pyval) list"

text \<open>
  A \<^verbatim>\<open>tir.Buffer\<close>: \<open>ident\<close> is the identity of the Python object (buffers are
  hashed and compared by identity when they are dictionary keys), \<open>data\<close> the identity
  of the storage variable \<^verbatim>\<open>buffer.data\<close>, \<open>shape\<close> the static extents of
  \<^verbatim>\<open>buffer.shape\<close>. Two buffers may share one \<open>data\<close>.
\<close>

type_synonym var = nat

record buffer =
  ident :: nat
  data :: var
  shape :: "int list"

text \<open>
  The three messages of the source's \<^verbatim>\<open>ValueError\<close>s, each with the value its f-string
  prints:
  \<^item> \<^verbatim>\<open>"mesh_shape must be a dict with 'x' and 'y' keys."\<close>
  \<^item> \<^verbatim>\<open>f"Invalid mesh tensor info: {info}"\<close>
  \<^item> \<^verbatim>\<open>f"MeshTensor information for buffer {buffer} not found."\<close>
  The spec's \<open>ConfigError\<close>, \<open>SchemaError\<close> and \<open>NotFoundError\<close> are these three; the
  other constructors of \<open>py_error\<close> are the exceptions Python itself raises.
\<close>

datatype message =
    MeshShapeMsg
  | InvalidInfoMsg pyval
  | NotFoundMsg buffer

datatype py_error =
    ValueError message
  | KeyError
  | TypeError
  | IndexError
  | ZeroDivisionError

text \<open>Sequencing of statements that may raise.\<close>

definition bind :: "py_error + 'a \<Rightarrow> ('a \<Rightarrow> py_error + 'b) \<Rightarrow> py_error + 'b" where
  "bind m f = (case m of Inl e \<Rightarrow> Inl e | Inr a \<Rightarrow> f a)"

text \<open>\<^verbatim>\<open>isinstance(v, dict)\<close>\<close>

fun is_dict :: "pyval \<Rightarrow> bool" where
  "is_dict (PDict kvs) = True"
| "is_dict v = False"

text \<open>\<^verbatim>\<open>k in v\<close> for a dictionary \<open>v\<close>; the source asks it only behind \<^verbatim>\<open>isinstance(v, dict)\<close>.\<close>

fun has_key :: "pyval \<Rightarrow> string \<Rightarrow> bool" where
  "has_key (PDict kvs) k = (k \<in> set (map fst kvs))"
| "has_key v k = False"

text \<open>
  \<^verbatim>\<open>v[k]\<close> for a string \<open>k\<close>: a dictionary raises \<^verbatim>\<open>KeyError\<close> on a missing key;
  strings, lists and tuples take integer subscripts only, and \<^verbatim>\<open>None\<close> and integers
  take none: \<^verbatim>\<open>TypeError\<close>.
\<close>

fun getitem :: "pyval \<Rightarrow> string \<Rightarrow> py_error + pyval" where
  "getitem (PDict kvs) k = (case map_of kvs k of None \<Rightarrow> Inl KeyError | Some v \<Rightarrow> Inr v)"
| "getitem v k = Inl TypeError"

text \<open>
  \<^verbatim>\<open>xs[i]\<close> and \<^verbatim>\<open>xs[i] = v\<close> on a Python list: a negative index counts from the end,
  an index out of range raises \<^verbatim>\<open>IndexError\<close>, a subscript that is not an integer
  raises \<^verbatim>\<open>TypeError\<close>.
\<close>

definition list_index :: "'a list \<Rightarrow> pyval \<Rightarrow> py_error + nat" where
  "list_index xs i =
     (case i of
        PInt k \<Rightarrow>
          (let n = int (length xs); j = (if k < 0 then k + n else k)
           in if 0 \<le> j \<and> j < n then Inr (nat j) else Inl IndexError)
      | _ \<Rightarrow> Inl TypeError)"

definition list_getitem :: "'a list \<Rightarrow> pyval \<Rightarrow> py_error + 'a" where
  "list_getitem xs i = bind (list_index xs i) (\<lambda>j. Inr (xs ! j))"

definition list_setitem :: "'a list \<Rightarrow> pyval \<Rightarrow> 'a \<Rightarrow> py_error + 'a list" where
  "list_setitem xs i v = bind (list_index xs i) (\<lambda>j. Inr (xs[j := v]))"

text \<open>
  \<^verbatim>\<open>copy.deepcopy\<close> rebuilds the value node by node. Values here are immutable trees,
  so the copy equals its argument (lemma \<open>deepcopy_id\<close> below) and shares nothing with it.
  What the copy is for, with dictionaries that change, is the matter of the embedding
  over an explicit store further down.
\<close>

fun deepcopy :: "pyval \<Rightarrow> pyval" where
  "deepcopy PNone = PNone"
| "deepcopy (PInt i) = PInt i"
| "deepcopy (PStr s) = PStr s"
| "deepcopy (PTuple xs) = PTuple (map deepcopy xs)"
| "deepcopy (PList xs) = PList (map deepcopy xs)"
| "deepcopy (PDict kvs) = PDict (map (map_prod id deepcopy) kvs)"

subsection \<open>The closure state and the factory\<close>

record mesh_state =
  mesh_shape :: pyval
  mesh_tensor_info :: "var \<rightharpoonup> pyval"

text \<open>
  Lines 26--32: the registry starts empty; the mesh shape is stored (deep-copied) when it
  is a dictionary with keys \<^verbatim>\<open>"x"\<close> and \<^verbatim>\<open>"y"\<close>, otherwise \<^verbatim>\<open>ValueError\<close>. The values
  under the two keys are not inspected.
\<close>

definition mesh_tensor_functions :: "pyval \<Rightarrow> py_error + mesh_state" where
  "mesh_tensor_functions cfg =
     (if is_dict cfg \<and> has_key cfg ''x'' \<and> has_key cfg ''y''
      then Inr \<lparr>mesh_shape = deepcopy cfg, mesh_tensor_info = Map.empty\<rparr>
      else Inl (ValueError MeshShapeMsg))"

subsection \<open>annotate\_mesh\_tensor\_info\<close>

text \<open>
  Lines 44--55, the loop over \<^verbatim>\<open>mesh_tensor_info.items()\<close>: \<open>reg\<close> is the dictionary
  bound to \<^verbatim>\<open>_mesh_tensor_info\<close>, which the loop fills entry by entry. The \<^verbatim>\<open>raise\<close>
  leaves the loop with the dictionary as filled so far.
\<close>

fun annotate_loop ::
  "(buffer \<times> pyval) list \<Rightarrow> (var \<rightharpoonup> pyval) \<Rightarrow> py_error option \<times> (var \<rightharpoonup> pyval)" where
  "annotate_loop [] reg = (None, reg)"
| "annotate_loop ((buf, info) # rest) reg =
     (if \<not> is_dict info
         \<or> \<not> has_key info ''block_shape''
         \<or> \<not> has_key info ''program_id''
         \<or> \<not> has_key info ''sharding''
      then (Some (ValueError (InvalidInfoMsg info)), reg)
      else annotate_loop rest (reg(data buf \<mapsto> deepcopy info)))"

text \<open>
  Modelled from the spec: \<^verbatim>\<open>T.func_attr\<close> is tilelang's and is not among the sources. The
  spec calls its value an opaque annotation token built from the validated mapping; here
  the value of \<^verbatim>\<open>T.func_attr({"mesh_tensor_info": _mesh_tensor_info})\<close> is a constructor
  over the dictionary it was given.
\<close>

datatype func_attr = FuncAttr "var \<rightharpoonup> pyval"

text \<open>
  Lines 42--58. Line 43 rebinds \<^verbatim>\<open>_mesh_tensor_info\<close> to a fresh empty dictionary before
  the loop, so the state returned holds that dictionary whether the call returns or raises.
\<close>

definition annotate_mesh_tensor_info ::
  "mesh_state \<Rightarrow> (buffer \<times> pyval) list \<Rightarrow> (py_error + func_attr) \<times> mesh_state" where
  "annotate_mesh_tensor_info st items =
     (case annotate_loop items Map.empty of
        (Some e, reg) \<Rightarrow> (Inl e, st\<lparr>mesh_tensor_info := reg\<rparr>)
      | (None, reg) \<Rightarrow> (Inr (FuncAttr reg), st\<lparr>mesh_tensor_info := reg\<rparr>))"

subsection \<open>get\_tile\_shape\<close>

text \<open>
  Modelled from the spec: \<^verbatim>\<open>T.ceildiv\<close> is tilelang's operator and is not among the
  sources. The spec gives \<open>ceilDivide(a,b) = floor((a + b - 1) / b)\<close> for positive
  integers; \<open>div\<close> on \<open>int\<close> is the floor division.
\<close>

definition ceilDivide :: "int \<Rightarrow> int \<Rightarrow> int" where
  "ceilDivide a b = (a + b - 1) div b"

text \<open>
  Modelled from the spec: the call \<^verbatim>\<open>T.ceildiv(a, n)\<close> with \<open>n\<close> read from
  \<^verbatim>\<open>_mesh_shape\<close>, whose values the factory does not check. The spec gives the quotient
  for positive integers; here an integer other than zero gets the same formula, and a
  zero divisor and an operand that is no integer are errors of the operator. The
  properties below use positive counts only.
\<close>

definition T_ceildiv :: "int \<Rightarrow> pyval \<Rightarrow> py_error + int" where
  "T_ceildiv a n =
     (case n of
        PInt k \<Rightarrow> if k = 0 then Inl ZeroDivisionError else Inr (ceilDivide a k)
      | _ \<Rightarrow> Inl TypeError)"

text \<open>Lines 70--72: \<^verbatim>\<open>_mesh_tensor_info.get(buffer.data, None)\<close> and the check for \<^verbatim>\<open>None\<close>.\<close>

definition lookup_info :: "mesh_state \<Rightarrow> buffer \<Rightarrow> py_error + pyval" where
  "lookup_info st buf =
     (case mesh_tensor_info st (data buf) of
        None \<Rightarrow> Inl (ValueError (NotFoundMsg buf))
      | Some info \<Rightarrow> Inr info)"

text \<open>
  Lines 68--82, statement by statement. In an assignment
  \<^verbatim>\<open>tile_shape[i] = T.ceildiv(tile_shape[i], _mesh_shape[a])\<close> Python evaluates the right
  side first: the read of \<^verbatim>\<open>tile_shape[i]\<close>, the read of \<^verbatim>\<open>_mesh_shape[a]\<close>, the call;
  then it stores. The tuple returned is the list of its extents.
\<close>

definition get_tile_shape :: "mesh_state \<Rightarrow> buffer \<Rightarrow> py_error + int list" where
  "get_tile_shape st buf =
     (let tensor_shape = shape buf in
      bind (lookup_info st buf) (\<lambda>info.
      bind (bind (getitem info ''sharding'') (\<lambda>s. getitem s ''x'')) (\<lambda>sharding_x.
      bind (bind (getitem info ''sharding'') (\<lambda>s. getitem s ''y'')) (\<lambda>sharding_y.
      let tile_shape = tensor_shape in
      bind (list_getitem tile_shape sharding_x) (\<lambda>gx.
      bind (getitem (mesh_shape st) ''x'') (\<lambda>nx.
      bind (T_ceildiv gx nx) (\<lambda>tx.
      bind (list_setitem tile_shape sharding_x tx) (\<lambda>tile_shape.
      bind (list_getitem tile_shape sharding_y) (\<lambda>gy.
      bind (getitem (mesh_shape st) ''y'') (\<lambda>ny.
      bind (T_ceildiv gy ny) (\<lambda>ty.
      bind (list_setitem tile_shape sharding_y ty) (\<lambda>tile_shape.
      Inr tile_shape))))))))))))"

subsection \<open>mesh\_tensor\_copy\<close>

text \<open>
  What \<^verbatim>\<open>zip(coord, block_shape)\<close> iterates on its second argument: the items of a
  tuple or list, the keys of a dictionary, the characters of a string; \<^verbatim>\<open>None\<close> and an
  integer are not iterable.
\<close>

fun py_iter :: "pyval \<Rightarrow> py_error + pyval list" where
  "py_iter (PTuple xs) = Inr xs"
| "py_iter (PList xs) = Inr xs"
| "py_iter (PDict kvs) = Inr (map (\<lambda>kv. PStr (fst kv)) kvs)"
| "py_iter (PStr s) = Inr (map (\<lambda>c. PStr [c]) s)"
| "py_iter (PInt i) = Inl TypeError"
| "py_iter PNone = Inl TypeError"

text \<open>
  \<^verbatim>\<open>i * b\<close> for an integer \<open>i\<close>: the product with an integer, the repetition of a
  string, tuple or list (empty when \<open>i \<le> 0\<close>), \<^verbatim>\<open>TypeError\<close> otherwise.
\<close>

fun int_mul :: "int \<Rightarrow> pyval \<Rightarrow> py_error + pyval" where
  "int_mul i (PInt n) = Inr (PInt (i * n))"
| "int_mul i (PStr s) = Inr (PStr (concat (replicate (nat i) s)))"
| "int_mul i (PTuple xs) = Inr (PTuple (concat (replicate (nat i) xs)))"
| "int_mul i (PList xs) = Inr (PList (concat (replicate (nat i) xs)))"
| "int_mul i PNone = Inl TypeError"
| "int_mul i (PDict kvs) = Inl TypeError"

text \<open>
  \<^verbatim>\<open>tuple(i * b for i, b in zip(coord, bs))\<close>: \<^verbatim>\<open>zip\<close> stops at the shorter sequence;
  the first product that raises ends the construction.
\<close>

fun mul_zip :: "int list \<Rightarrow> pyval list \<Rightarrow> py_error + pyval list" where
  "mul_zip (i # is) (b # bs) =
     bind (int_mul i b) (\<lambda>v. bind (mul_zip is bs) (\<lambda>vs. Inr (v # vs)))"
| "mul_zip is bs = Inr []"

text \<open>
  Modelled from the spec: the subscript \<^verbatim>\<open>src[...]\<close> is the \<^verbatim>\<open>__getitem__\<close> of
  \<^verbatim>\<open>tir.Buffer\<close>, which is not among the sources. The spec says that it replaces the
  buffer with the sub-view of the tensor starting at the offset; here a buffer reaches
  \<^verbatim>\<open>T.copy\<close> whole, or as the sub-view holding the tuple it was subscripted by.
\<close>

datatype view = Whole buffer | SubView buffer "pyval list"

text \<open>\<^verbatim>\<open>try: body except KeyError: raise ValueError(...)\<close>\<close>

definition except_KeyError :: "py_error + 'a \<Rightarrow> py_error \<Rightarrow> py_error + 'a" where
  "except_KeyError body e = (case body of Inl KeyError \<Rightarrow> Inl e | r \<Rightarrow> r)"

text \<open>
  Lines 100--108 for the source and 110--117 for the destination are one block up to the
  names: the registry is subscripted (a missing key raises \<^verbatim>\<open>KeyError\<close>), the
  \<^verbatim>\<open>block_shape\<close> read, the coordinates multiplied and the buffer subscripted, all
  inside the \<^verbatim>\<open>try\<close>.
\<close>

definition block_view :: "mesh_state \<Rightarrow> buffer \<Rightarrow> int list \<Rightarrow> py_error + view" where
  "block_view st buf coord =
     except_KeyError
       (bind (case mesh_tensor_info st (data buf) of None \<Rightarrow> Inl KeyError | Some i \<Rightarrow> Inr i)
          (\<lambda>info.
        bind (getitem info ''block_shape'') (\<lambda>block_shape.
        bind (py_iter block_shape) (\<lambda>bs.
        bind (mul_zip coord bs) (\<lambda>idx.
        Inr (SubView buf idx))))))
       (ValueError (NotFoundMsg buf))"

text \<open>
  Lines 98--119. \<open>T_copy\<close> is tilelang's copy primitive \<^verbatim>\<open>T.copy\<close>, a parameter here;
  the function returns what the primitive returns.
\<close>

definition mesh_tensor_copy ::
  "(view \<Rightarrow> view \<Rightarrow> py_error + 'r) \<Rightarrow> mesh_state \<Rightarrow> buffer \<Rightarrow> buffer \<Rightarrow>
     int list option \<Rightarrow> int list option \<Rightarrow> py_error + 'r" where
  "mesh_tensor_copy T_copy st src dst src_coord dst_coord =
     bind (case src_coord of None \<Rightarrow> Inr (Whole src) | Some c \<Rightarrow> block_view st src c) (\<lambda>src'.
     bind (case dst_coord of None \<Rightarrow> Inr (Whole dst) | Some c \<Rightarrow> block_view st dst c) (\<lambda>dst'.
     T_copy src' dst'))"

subsection \<open>Notions the properties are stated with\<close>

text \<open>
  The test of lines 46--51, as the condition under which an entry is stored: the info is
  a dictionary and has the three keys at its top level.
\<close>

definition info_ok :: "pyval \<Rightarrow> bool" where
  "info_ok info \<longleftrightarrow>
     is_dict info \<and> has_key info ''block_shape'' \<and> has_key info ''program_id''
       \<and> has_key info ''sharding''"

text \<open>
  The dictionary that results from storing the entries of \<open>items\<close> in order into \<open>reg\<close>,
  each under the \<open>data\<close> of its buffer (line 55): a later entry with the same \<open>data\<close>
  replaces an earlier one.
\<close>

definition registry_of :: "(buffer \<times> pyval) list \<Rightarrow> (var \<rightharpoonup> pyval) \<Rightarrow> (var \<rightharpoonup> pyval)" where
  "registry_of items reg = fold (\<lambda>bi r. r(data (fst bi) \<mapsto> snd bi)) items reg"

text \<open>
  The hypotheses of the properties about \<open>get_tile_shape\<close> and \<open>mesh_tensor_copy\<close>: the
  buffer is registered and the reads of lines 75--76 give \<open>vx\<close> and \<open>vy\<close>; the mesh shape
  holds the integer counts \<open>nx\<close> and \<open>ny\<close>; the buffer is registered and the read of line
  102 gives a tuple or list of the integers \<open>bs\<close>; \<open>d\<close> is a dimension of the buffer,
  counted from zero.
\<close>

definition has_sharding :: "mesh_state \<Rightarrow> buffer \<Rightarrow> pyval \<Rightarrow> pyval \<Rightarrow> bool" where
  "has_sharding st buf vx vy \<longleftrightarrow>
     (case mesh_tensor_info st (data buf) of
        None \<Rightarrow> False
      | Some info \<Rightarrow>
          (case getitem info ''sharding'' of
             Inl e \<Rightarrow> False
           | Inr s \<Rightarrow> getitem s ''x'' = Inr vx \<and> getitem s ''y'' = Inr vy))"

definition mesh_counts :: "mesh_state \<Rightarrow> int \<Rightarrow> int \<Rightarrow> bool" where
  "mesh_counts st nx ny \<longleftrightarrow>
     getitem (mesh_shape st) ''x'' = Inr (PInt nx) \<and> getitem (mesh_shape st) ''y'' = Inr (PInt ny)"

definition has_block_shape :: "mesh_state \<Rightarrow> buffer \<Rightarrow> int list \<Rightarrow> bool" where
  "has_block_shape st buf bs \<longleftrightarrow>
     (case mesh_tensor_info st (data buf) of
        None \<Rightarrow> False
      | Some info \<Rightarrow>
          (case getitem info ''block_shape'' of
             Inl e \<Rightarrow> False
           | Inr v \<Rightarrow> v = PTuple (map PInt bs) \<or> v = PList (map PInt bs)))"

definition valid_dim :: "buffer \<Rightarrow> int \<Rightarrow> bool" where
  "valid_dim buf d \<longleftrightarrow> 0 \<le> d \<and> d < int (length (shape buf))"

subsection \<open>The registry over an explicit store\<close>

text \<open>
  The values above are immutable trees: they tell what a dictionary holds, not which
  dictionary it is, so they cannot tell a stored copy from a stored reference. Line 55
  stores \<^verbatim>\<open>deepcopy(info)\<close>, and what that gives shows only when the caller's
  dictionaries can change after the call. For that, \<^verbatim>\<open>annotate_mesh_tensor_info\<close> and
  the lookup of lines 70--72 are embedded a second time, over a heap.

  Dictionaries and lists are mutable objects: they live in cells of the heap, and a value
  refers to them by address. \<^verbatim>\<open>None\<close>, integers, strings and tuples are immutable and
  are held directly; a tuple may hold references. The heap is the list of its cells, a
  new object takes the next address, and a mutation of an object replaces its cell.
\<close>

type_synonym addr = nat

datatype hval =
    HNone
  | HInt int
  | HStr string
  | HTuple "hval list"
  | HRef addr

datatype hobj =
    HDict "(string \<times> hval) list"
  | HList "hval list"

type_synonym heap = "hobj list"

text \<open>
  The value a reference stands for in a heap, followed through at most \<open>n\<close> nested
  dictionaries and lists: what \<^verbatim>\<open>print\<close> or \<^verbatim>\<open>==\<close> see of it. A structure nested
  deeper than \<open>n\<close>, a cyclic one and a dangling address have no value (\<open>None\<close>).
\<close>

fun read :: "nat \<Rightarrow> heap \<Rightarrow> hval \<Rightarrow> pyval option"
  and reads :: "nat \<Rightarrow> heap \<Rightarrow> hval list \<Rightarrow> pyval list option"
  and read_items :: "nat \<Rightarrow> heap \<Rightarrow> (string \<times> hval) list \<Rightarrow> (string \<times> pyval) list option"
where
  "read n h HNone = Some PNone"
| "read n h (HInt i) = Some (PInt i)"
| "read n h (HStr s) = Some (PStr s)"
| "read n h (HTuple vs) = map_option PTuple (reads n h vs)"
| "read 0 h (HRef a) = None"
| "read (Suc n) h (HRef a) =
     (if a < length h
      then (case h ! a of
              HDict kvs \<Rightarrow> map_option PDict (read_items n h kvs)
            | HList vs \<Rightarrow> map_option PList (reads n h vs))
      else None)"
| "reads n h [] = Some []"
| "reads n h (v # vs) =
     (case read n h v of None \<Rightarrow> None | Some t \<Rightarrow> map_option ((#) t) (reads n h vs))"
| "read_items n h [] = Some []"
| "read_items n h (kv # kvs) =
     (case read n h (snd kv) of
        None \<Rightarrow> None
      | Some t \<Rightarrow> map_option ((#) (fst kv, t)) (read_items n h kvs))"

text \<open>
  Building a value in the heap: every dictionary and list of the value gets a new cell at
  the end of the heap, the nested ones before the one that holds them.
\<close>

fun alloc :: "heap \<Rightarrow> pyval \<Rightarrow> hval \<times> heap"
  and allocs :: "heap \<Rightarrow> pyval list \<Rightarrow> hval list \<times> heap"
  and alloc_items :: "heap \<Rightarrow> (string \<times> pyval) list \<Rightarrow> (string \<times> hval) list \<times> heap"
where
  "alloc h PNone = (HNone, h)"
| "alloc h (PInt i) = (HInt i, h)"
| "alloc h (PStr s) = (HStr s, h)"
| "alloc h (PTuple ts) = (case allocs h ts of (vs, h') \<Rightarrow> (HTuple vs, h'))"
| "alloc h (PList ts) = (case allocs h ts of (vs, h') \<Rightarrow> (HRef (length h'), h' @ [HList vs]))"
| "alloc h (PDict kts) =
     (case alloc_items h kts of (kvs, h') \<Rightarrow> (HRef (length h'), h' @ [HDict kvs]))"
| "allocs h [] = ([], h)"
| "allocs h (t # ts) =
     (case alloc h t of (v, h1) \<Rightarrow> (case allocs h1 ts of (vs, h2) \<Rightarrow> (v # vs, h2)))"
| "alloc_items h [] = ([], h)"
| "alloc_items h (kt # kts) =
     (case alloc h (snd kt) of (v, h1) \<Rightarrow>
        (case alloc_items h1 kts of (kvs, h2) \<Rightarrow> ((fst kt, v) # kvs, h2)))"

text \<open>The number of dictionaries and lists nested in a value, along its deepest path.\<close>

fun rdepth :: "pyval \<Rightarrow> nat"
  and rdepths :: "pyval list \<Rightarrow> nat"
  and rdepth_items :: "(string \<times> pyval) list \<Rightarrow> nat"
where
  "rdepth PNone = 0"
| "rdepth (PInt i) = 0"
| "rdepth (PStr s) = 0"
| "rdepth (PTuple ts) = rdepths ts"
| "rdepth (PList ts) = Suc (rdepths ts)"
| "rdepth (PDict kts) = Suc (rdepth_items kts)"
| "rdepths [] = 0"
| "rdepths (t # ts) = max (rdepth t) (rdepths ts)"
| "rdepth_items [] = 0"
| "rdepth_items (kt # kts) = max (rdepth (snd kt)) (rdepth_items kts)"

text \<open>
  \<^verbatim>\<open>copy.deepcopy\<close> is Python's library function and is not among the sources. By its
  documentation it constructs a new compound object and recursively inserts copies of the
  objects found in the original: here it reads the whole structure and builds it anew in
  new cells. The objects of the copy are none of the original's. Sharing between two parts
  of the original, which Python's copy keeps, is not kept; no read of a value sees it.
  A structure \<open>read\<close> gives no value for has no copy in the model (\<open>None\<close>).
\<close>

definition deepcopy_h :: "nat \<Rightarrow> heap \<Rightarrow> hval \<Rightarrow> (hval \<times> heap) option" where
  "deepcopy_h n h v = map_option (alloc h) (read n h v)"

text \<open>\<^verbatim>\<open>isinstance(v, dict)\<close> and \<^verbatim>\<open>k in v\<close>, on a reference.\<close>

fun is_dict_h :: "heap \<Rightarrow> hval \<Rightarrow> bool" where
  "is_dict_h h (HRef a) =
     (a < length h \<and> (case h ! a of HDict kvs \<Rightarrow> True | HList vs \<Rightarrow> False))"
| "is_dict_h h v = False"

fun has_key_h :: "heap \<Rightarrow> hval \<Rightarrow> string \<Rightarrow> bool" where
  "has_key_h h (HRef a) k =
     (a < length h
      \<and> (case h ! a of HDict kvs \<Rightarrow> k \<in> set (map fst kvs) | HList vs \<Rightarrow> False))"
| "has_key_h h v k = False"

text \<open>
  The closure state, with references for values. The registry is itself a dictionary of
  the closure; its entries are the references line 55 stores.
\<close>

record mesh_state_h =
  mesh_shape_h :: hval
  mesh_tensor_info_h :: "var \<rightharpoonup> hval"

text \<open>
  Lines 44--55 over the heap. The \<^verbatim>\<open>raise\<close> of line 52 prints the info, that is its
  value in the heap of that moment; line 55 copies the info and stores the reference to
  the copy, and the loop goes on in the heap that holds the copy.
\<close>

fun annotate_loop_h ::
  "nat \<Rightarrow> (buffer \<times> hval) list \<Rightarrow> (var \<rightharpoonup> hval) \<Rightarrow> heap
     \<Rightarrow> (py_error option \<times> (var \<rightharpoonup> hval) \<times> heap) option" where
  "annotate_loop_h n [] reg h = Some (None, reg, h)"
| "annotate_loop_h n ((buf, info) # rest) reg h =
     (if \<not> is_dict_h h info
         \<or> \<not> has_key_h h info ''block_shape''
         \<or> \<not> has_key_h h info ''program_id''
         \<or> \<not> has_key_h h info ''sharding''
      then map_option (\<lambda>t. (Some (ValueError (InvalidInfoMsg t)), reg, h)) (read n h info)
      else (case deepcopy_h n h info of
              None \<Rightarrow> None
            | Some (c, h') \<Rightarrow> annotate_loop_h n rest (reg(data buf \<mapsto> c)) h'))"

text \<open>
  Modelled from the spec: the value of \<^verbatim>\<open>T.func_attr\<close>, as above, over the dictionary of
  references.
\<close>

datatype func_attr_h = FuncAttrH "var \<rightharpoonup> hval"

text \<open>
  Lines 42--58 over the heap: the result, the closure state and the heap after the call;
  \<open>None\<close> when \<open>read\<close> gave no value for an info.
\<close>

definition annotate_mesh_tensor_info_h ::
  "nat \<Rightarrow> mesh_state_h \<Rightarrow> heap \<Rightarrow> (buffer \<times> hval) list
     \<Rightarrow> ((py_error + func_attr_h) \<times> mesh_state_h \<times> heap) option" where
  "annotate_mesh_tensor_info_h n st h items =
     (case annotate_loop_h n items Map.empty h of
        None \<Rightarrow> None
      | Some (Some e, reg, h') \<Rightarrow> Some (Inl e, st\<lparr>mesh_tensor_info_h := reg\<rparr>, h')
      | Some (None, reg, h') \<Rightarrow> Some (Inr (FuncAttrH reg), st\<lparr>mesh_tensor_info_h := reg\<rparr>, h'))"

text \<open>
  Lines 70--72 over the heap: \<^verbatim>\<open>_mesh_tensor_info.get(buffer.data, None)\<close> and the check
  for \<^verbatim>\<open>None\<close>. The lookup returns the reference the registry holds.
\<close>

definition lookup_info_h :: "mesh_state_h \<Rightarrow> buffer \<Rightarrow> py_error + hval" where
  "lookup_info_h st buf =
     (case mesh_tensor_info_h st (data buf) of
        None \<Rightarrow> Inl (ValueError (NotFoundMsg buf))
      | Some info \<Rightarrow>
          if info = HNone then Inl (ValueError (NotFoundMsg buf)) else Inr info)"

text \<open>
  The test of lines 46--51 on a reference; a later heap \<open>h''\<close> that has the cells of
  \<open>h'\<close> from address \<open>lo\<close> on as they are in \<open>h'\<close>, whatever became of the cells below
  \<open>lo\<close> and whatever was allocated since; a registry of references that stands, in a
  heap, for a registry of values.
\<close>

definition info_ok_h :: "heap \<Rightarrow> hval \<Rightarrow> bool" where
  "info_ok_h h info \<longleftrightarrow>
     is_dict_h h info \<and> has_key_h h info ''block_shape'' \<and> has_key_h h info ''program_id''
       \<and> has_key_h h info ''sharding''"

definition cells_kept :: "nat \<Rightarrow> heap \<Rightarrow> heap \<Rightarrow> bool" where
  "cells_kept lo h' h'' \<longleftrightarrow>
     length h' \<le> length h'' \<and> drop lo (take (length h') h'') = drop lo h'"

definition rel_reg :: "nat \<Rightarrow> heap \<Rightarrow> (var \<rightharpoonup> hval) \<Rightarrow> (var \<rightharpoonup> pyval) \<Rightarrow> bool" where
  "rel_reg n h reg vreg \<longleftrightarrow>
     (\<forall>d. case reg d of
            None \<Rightarrow> vreg d = None
          | Some r \<Rightarrow> (\<exists>t. vreg d = Some t \<and> read n h r = Some t))"

subsection \<open>Concrete buffers, infos and states for the examples\<close>

text \<open>
  \<open>buf_A2\<close> is a second buffer object over the storage of \<open>buf_A\<close>; \<open>info_no_pid\<close> has
  \<^verbatim>\<open>block_shape\<close> and \<^verbatim>\<open>sharding\<close> but no \<^verbatim>\<open>program_id\<close>; \<open>mesh_2x4\<close> is the state
  the factory returns for \<^verbatim>\<open>{"x": 2, "y": 4}\<close>, \<open>st_old\<close> that state after
  \<^verbatim>\<open>annotate_mesh_tensor_info({buf_B: info_B})\<close>. The other infos differ from
  \<open>info_A\<close> in their \<^verbatim>\<open>sharding\<close>: both axes on dimension 0, no key \<^verbatim>\<open>"y"\<close>, a string.
\<close>

definition buf_A :: buffer where
  "buf_A = \<lparr>ident = 1, data = 10, shape = [128, 256]\<rparr>"

definition buf_B :: buffer where
  "buf_B = \<lparr>ident = 2, data = 20, shape = [100, 256]\<rparr>"

definition buf_A2 :: buffer where
  "buf_A2 = \<lparr>ident = 3, data = 10, shape = [64, 256]\<rparr>"

definition info_A :: pyval where
  "info_A = PDict [(''block_shape'', PTuple [PInt 16, PInt 16]), (''program_id'', PInt 0),
                   (''sharding'', PDict [(''x'', PInt 0), (''y'', PInt 1)])]"

definition info_B :: pyval where
  "info_B = PDict [(''block_shape'', PTuple [PInt 32, PInt 8]), (''program_id'', PInt 1),
                   (''sharding'', PDict [(''x'', PInt 1), (''y'', PInt 0)])]"

definition info_no_pid :: pyval where
  "info_no_pid = PDict [(''block_shape'', PTuple [PInt 16, PInt 16]),
                        (''sharding'', PDict [(''x'', PInt 0), (''y'', PInt 1)])]"

definition mesh_2x4 :: mesh_state where
  "mesh_2x4 = \<lparr>mesh_shape = PDict [(''x'', PInt 2), (''y'', PInt 4)],
                mesh_tensor_info = Map.empty\<rparr>"

definition st_old :: mesh_state where
  "st_old = snd (annotate_mesh_tensor_info mesh_2x4 [(buf_B, info_B)])"

definition mesh_3x4 :: mesh_state where
  "mesh_3x4 = \<lparr>mesh_shape = PDict [(''x'', PInt 3), (''y'', PInt 4)],
                mesh_tensor_info = Map.empty\<rparr>"

definition info_same_dim :: pyval where
  "info_same_dim = PDict [(''block_shape'', PTuple [PInt 16, PInt 16]), (''program_id'', PInt 0),
                          (''sharding'', PDict [(''x'', PInt 0), (''y'', PInt 0)])]"

definition info_no_y :: pyval where
  "info_no_y = PDict [(''block_shape'', PTuple [PInt 16, PInt 16]), (''program_id'', PInt 0),
                      (''sharding'', PDict [(''x'', PInt 0)])]"

definition info_str_sharding :: pyval where
  "info_str_sharding = PDict [(''block_shape'', PTuple [PInt 16, PInt 16]),
                              (''program_id'', PInt 0), (''sharding'', PStr ''x'')]"

text \<open>A copy primitive that returns the two views it is given, for the examples.\<close>

definition copy_args :: "view \<Rightarrow> view \<Rightarrow> py_error + (view \<times> view)" where
  "copy_args s d = Inr (s, d)"

text \<open>
  A heap for the examples. Cell 0 is the mesh shape the factory stored; cells 1 and 2 are
  the caller's \<^verbatim>\<open>sharding\<close> and info dictionaries for \<open>buf_A\<close> (the value \<open>info_A\<close>),
  cells 3 and 4 those for \<open>buf_B\<close> (the value \<open>info_B\<close>). \<open>st_old_h\<close> and \<open>heap_old\<close>
  are the state and the heap after \<^verbatim>\<open>annotate_mesh_tensor_info({buf_B: info_B})\<close>, with
  the copy in cells 5 and 6; \<open>st_new_h\<close> and \<open>heap_new\<close> those after a second call,
  \<^verbatim>\<open>annotate_mesh_tensor_info({buf_A: info_A})\<close>, with the copy in cells 7 and 8;
  \<open>st_two_h\<close> and \<open>heap_two\<close> those after the second call made with the mapping
  \<^verbatim>\<open>{buf_A: info_A, buf_A2: info_B}\<close> instead. In \<open>heap_mutated\<close> the caller has
  then set \<^verbatim>\<open>info_A["sharding"]["y"] = 0\<close> on its own dictionary.
\<close>

definition heap_0 :: heap where
  "heap_0 = [HDict [(''x'', HInt 2), (''y'', HInt 4)],
             HDict [(''x'', HInt 0), (''y'', HInt 1)],
             HDict [(''block_shape'', HTuple [HInt 16, HInt 16]), (''program_id'', HInt 0),
                    (''sharding'', HRef 1)],
             HDict [(''x'', HInt 1), (''y'', HInt 0)],
             HDict [(''block_shape'', HTuple [HInt 32, HInt 8]), (''program_id'', HInt 1),
                    (''sharding'', HRef 3)]]"

definition ref_A :: hval where
  "ref_A = HRef 2"

definition ref_B :: hval where
  "ref_B = HRef 4"

definition mesh_2x4_h :: mesh_state_h where
  "mesh_2x4_h = \<lparr>mesh_shape_h = HRef 0, mesh_tensor_info_h = Map.empty\<rparr>"

definition heap_old :: heap where
  "heap_old = heap_0 @
            [HDict [(''x'', HInt 1), (''y'', HInt 0)],
             HDict [(''block_shape'', HTuple [HInt 32, HInt 8]), (''program_id'', HInt 1),
                    (''sharding'', HRef 5)]]"

definition st_old_h :: mesh_state_h where
  "st_old_h = mesh_2x4_h\<lparr>mesh_tensor_info_h := [data buf_B \<mapsto> HRef 6]\<rparr>"

definition heap_new :: heap where
  "heap_new = heap_old @
            [HDict [(''x'', HInt 0), (''y'', HInt 1)],
             HDict [(''block_shape'', HTuple [HInt 16, HInt 16]), (''program_id'', HInt 0),
                    (''sharding'', HRef 7)]]"

definition st_new_h :: mesh_state_h where
  "st_new_h = mesh_2x4_h\<lparr>mesh_tensor_info_h := [data buf_A \<mapsto> HRef 8]\<rparr>"

definition heap_two :: heap where
  "heap_two = heap_new @
            [HDict [(''x'', HInt 1), (''y'', HInt 0)],
             HDict [(''block_shape'', HTuple [HInt 32, HInt 8]), (''program_id'', HInt 1),
                    (''sharding'', HRef 9)]]"

definition st_two_h :: mesh_state_h where
  "st_two_h = mesh_2x4_h\<lparr>mesh_tensor_info_h := [data buf_A \<mapsto> HRef 10]\<rparr>"

definition heap_mutated :: heap where
  "heap_mutated = heap_new[1 := HDict [(''x'', HInt 0), (''y'', HInt 0)]]"

section \<open>Properties\<close>

subsection \<open>Auxiliary facts\<close>

lemma deepcopy_id: "deepcopy v = v"
proof (induction v)
  case (PDict kvs)
  have "map (map_prod id deepcopy) kvs = kvs"
  proof (rule map_idI)
    fix kv assume "kv \<in> set kvs"
    then have "deepcopy (snd kv) = snd kv"
      by (rule PDict.IH) (simp add: snds.simps)
    then show "map_prod id deepcopy kv = kv"
      by (simp add: map_prod_def split_beta)
  qed
  then show ?case by simp
qed (auto simp: map_idI)

lemma bind_Inl: "bind (Inl e) f = Inl e"
  by (simp add: bind_def)

lemma bind_Inr: "bind (Inr a) f = f a"
  by (simp add: bind_def)

lemma registry_of_Nil: "registry_of [] reg = reg"
  by (simp add: registry_of_def)

lemma registry_of_Cons:
  "registry_of (bi # items) reg = registry_of items (reg(data (fst bi) \<mapsto> snd bi))"
  by (simp add: registry_of_def)

lemma registry_of_append:
  "registry_of (xs @ ys) reg = registry_of ys (registry_of xs reg)"
  by (simp add: registry_of_def)

lemma annotate_loop_Cons:
  "annotate_loop ((b, i) # rest) reg =
     (if info_ok i then annotate_loop rest (reg(data b \<mapsto> i))
      else (Some (ValueError (InvalidInfoMsg i)), reg))"
  unfolding info_ok_def by (simp add: deepcopy_id)

declare annotate_loop.simps(2) [simp del]

lemma registry_of_absent:
  "d \<notin> data ` fst ` set items \<Longrightarrow> registry_of items reg d = reg d"
  by (induction items arbitrary: reg) (auto simp: registry_of_Nil registry_of_Cons)

lemma registry_of_last:
  "\<forall>bi\<in>set post. data (fst bi) \<noteq> data b \<Longrightarrow>
   registry_of (pre @ (b, info) # post) reg (data b) = Some info"
proof -
  assume "\<forall>bi\<in>set post. data (fst bi) \<noteq> data b"
  then have "data b \<notin> data ` fst ` set post" by auto
  then show ?thesis
    by (simp add: registry_of_append registry_of_Cons registry_of_absent)
qed

lemma registry_of_source:
  "registry_of items reg d = Some i \<Longrightarrow>
   reg d = Some i \<or> (\<exists>b. (b, i) \<in> set items \<and> data b = d)"
proof (induction items arbitrary: reg)
  case Nil
  then show ?case by (simp add: registry_of_Nil)
next
  case (Cons bi items)
  from Cons.prems have "registry_of items (reg(data (fst bi) \<mapsto> snd bi)) d = Some i"
    by (simp add: registry_of_Cons)
  from Cons.IH [OF this] show ?case
    by (cases bi) (auto split: if_splits)
qed

lemma annotate_eq:
  "annotate_mesh_tensor_info st items =
     (case find (\<lambda>bi. \<not> info_ok (snd bi)) items of
        None \<Rightarrow> Inr (FuncAttr (registry_of (takeWhile (\<lambda>bi. info_ok (snd bi)) items) Map.empty))
      | Some bi \<Rightarrow> Inl (ValueError (InvalidInfoMsg (snd bi))),
      st\<lparr>mesh_tensor_info := registry_of (takeWhile (\<lambda>bi. info_ok (snd bi)) items) Map.empty\<rparr>)"
proof -
  have loop: "annotate_loop items reg =
     (case find (\<lambda>bi. \<not> info_ok (snd bi)) items of
        None \<Rightarrow> None | Some bi \<Rightarrow> Some (ValueError (InvalidInfoMsg (snd bi))),
      registry_of (takeWhile (\<lambda>bi. info_ok (snd bi)) items) reg)" for reg
  proof (induction items arbitrary: reg)
    case Nil
    show ?case by (simp add: registry_of_Nil)
  next
    case (Cons bi items)
    obtain b i where bi: "bi = (b, i)" by (cases bi)
    show ?case
    proof (cases "info_ok i")
      case True
      have "annotate_loop (bi # items) reg = annotate_loop items (reg(data b \<mapsto> i))"
        using True by (simp only: bi annotate_loop_Cons if_True)
      also note Cons.IH [of "reg(data b \<mapsto> i)"]
      finally show ?thesis
        using True by (simp only: bi find.simps takeWhile.simps registry_of_Cons snd_conv
            fst_conv not_True_eq_False if_True if_False)
    next
      case False
      then show ?thesis
        by (simp only: bi annotate_loop_Cons find.simps takeWhile.simps registry_of_Nil
            snd_conv if_True if_False not_False_eq_True option.case)
    qed
  qed
  show ?thesis
    by (simp add: annotate_mesh_tensor_info_def loop split: option.split)
qed

lemma find_None_takeWhile:
  "find (\<lambda>x. \<not> P x) xs = None \<Longrightarrow> takeWhile P xs = xs"
  by (induction xs) (auto split: if_splits)

lemma find_Some_in:
  "find Q xs = Some x \<Longrightarrow> x \<in> set xs \<and> Q x"
  by (induction xs) (auto split: if_splits)

lemma find_Some_split:
  "find (\<lambda>x. \<not> P x) xs = Some x \<Longrightarrow> \<exists>post. xs = takeWhile P xs @ x # post"
  by (induction xs) (auto split: if_splits)

lemma st_old_eq: "st_old = mesh_2x4\<lparr>mesh_tensor_info := [data buf_B \<mapsto> info_B]\<rparr>"
  by (simp add: st_old_def annotate_mesh_tensor_info_def annotate_loop_Cons info_ok_def info_B_def)

lemma annotate_ok_registry:
  assumes "fst (annotate_mesh_tensor_info st items) = Inr tok"
  shows "mesh_tensor_info (snd (annotate_mesh_tensor_info st items)) = registry_of items Map.empty"
proof -
  from assms have "find (\<lambda>bi. \<not> info_ok (snd bi)) items = None"
    by (auto simp: annotate_eq split: option.splits)
  then have tw: "takeWhile (\<lambda>bi. info_ok (snd bi)) items = items"
    by (rule find_None_takeWhile)
  show ?thesis by (simp add: annotate_eq tw)
qed

lemma lookup_info_after_annotate:
  assumes "fst (annotate_mesh_tensor_info st items) = Inr tok"
    and "items = pre @ (b, info) # post"
    and "\<forall>bi\<in>set post. data (fst bi) \<noteq> data b"
    and "data g = data b"
  shows "lookup_info (snd (annotate_mesh_tensor_info st items)) g = Inr info"
proof -
  note r = annotate_ok_registry [OF assms(1)]
  have "registry_of items Map.empty (data b) = Some info"
    unfolding assms(2) using assms(3) by (rule registry_of_last)
  then show ?thesis by (simp only: lookup_info_def r assms(4) option.case)
qed

lemma st_A_eq:
  "snd (annotate_mesh_tensor_info st [(buf_A, info_A)]) = st\<lparr>mesh_tensor_info := [data buf_A \<mapsto> info_A]\<rparr>"
  by (simp add: annotate_mesh_tensor_info_def annotate_loop_Cons info_ok_def info_A_def)

lemma get_tile_shape_unregistered:
  "mesh_tensor_info st (data b) = None \<Longrightarrow> get_tile_shape st b = Inl (ValueError (NotFoundMsg b))"
  by (simp add: get_tile_shape_def lookup_info_def bind_Inl)

lemma list_index_ok:
  "0 \<le> k \<Longrightarrow> k < int (length xs) \<Longrightarrow> list_index xs (PInt k) = Inr (nat k)"
  by (simp add: list_index_def)

lemma get_tile_shape_registered:
  assumes reg: "mesh_tensor_info st (data b) = Some info"
    and sh: "getitem info ''sharding'' = Inr s"
    and x: "getitem s ''x'' = Inr (PInt dx)" and y: "getitem s ''y'' = Inr (PInt dy)"
    and dx: "0 \<le> dx" "dx < int (length (shape b))"
    and dy: "0 \<le> dy" "dy < int (length (shape b))"
    and mx: "getitem (mesh_shape st) ''x'' = Inr (PInt nx)"
    and my: "getitem (mesh_shape st) ''y'' = Inr (PInt ny)"
    and nz: "nx \<noteq> 0" "ny \<noteq> 0"
  shows "get_tile_shape st b =
           Inr (((shape b)[nat dx := ceilDivide (shape b ! nat dx) nx])
                  [nat dy := ceilDivide (((shape b)[nat dx := ceilDivide (shape b ! nat dx) nx]) ! nat dy) ny])"
  using assms
  by (simp add: get_tile_shape_def lookup_info_def bind_Inr list_getitem_def list_setitem_def
      list_index_ok T_ceildiv_def Let_def)

lemma has_shardingD:
  assumes "has_sharding st b vx vy"
  obtains info s where "mesh_tensor_info st (data b) = Some info"
    and "getitem info ''sharding'' = Inr s"
    and "getitem s ''x'' = Inr vx" and "getitem s ''y'' = Inr vy"
  using assms by (auto simp: has_sharding_def split: option.splits sum.splits)

lemma getitem_not_dict: "\<not> is_dict v \<Longrightarrow> getitem v k = Inl TypeError"
  by (cases v) simp_all

lemma getitem_missing:
  assumes "is_dict v" and "\<not> has_key v k"
  shows "getitem v k = Inl KeyError"
proof (cases v)
  case (PDict kvs)
  with assms(2) have "k \<notin> fst ` set kvs" by simp
  then have "map_of kvs k = None" by (simp add: map_of_eq_None_iff)
  with PDict show ?thesis by simp
qed (use assms(1) in simp_all)

lemma getitem_present: "has_key v k \<Longrightarrow> \<exists>w. getitem v k = Inr w"
proof (cases v)
  case (PDict kvs)
  assume "has_key v k"
  with PDict have "k \<in> fst ` set kvs" by simp
  then have "map_of kvs k \<noteq> None" by (simp add: map_of_eq_None_iff)
  with PDict show ?thesis by auto
qed simp_all

lemma get_tile_shape_bad_sharding:
  assumes reg: "mesh_tensor_info st (data b) = Some info"
    and s: "getitem info ''sharding'' = Inr s"
    and bad: "\<not> is_dict s \<or> \<not> has_key s ''x'' \<or> \<not> has_key s ''y''"
  shows "get_tile_shape st b = Inl (if is_dict s then KeyError else TypeError)"
proof (cases "is_dict s")
  case False
  then have "getitem s ''x'' = Inl TypeError" by (rule getitem_not_dict)
  with reg s False show ?thesis
    by (simp add: get_tile_shape_def lookup_info_def bind_Inr bind_Inl)
next
  case True
  show ?thesis
  proof (cases "has_key s ''x''")
    case False
    with True have "getitem s ''x'' = Inl KeyError" by (rule getitem_missing)
    with reg s True show ?thesis
      by (simp add: get_tile_shape_def lookup_info_def bind_Inr bind_Inl)
  next
    case hx: True
    then obtain w where w: "getitem s ''x'' = Inr w" by (auto dest: getitem_present)
    from bad True hx have "\<not> has_key s ''y''" by simp
    with True have "getitem s ''y'' = Inl KeyError" by (rule getitem_missing)
    with reg s True w show ?thesis
      by (simp add: get_tile_shape_def lookup_info_def bind_Inr bind_Inl)
  qed
qed

lemma mul_zip_ints: "mul_zip c (map PInt bs) = Inr (map PInt (map2 (*) c bs))"
proof (induction c arbitrary: bs)
  case Nil
  show ?case by simp
next
  case (Cons i c)
  show ?case by (cases bs) (simp_all add: Cons.IH bind_Inr)
qed

lemma block_view_unregistered:
  "mesh_tensor_info st (data buf) = None \<Longrightarrow>
   block_view st buf c = Inl (ValueError (NotFoundMsg buf))"
  by (simp add: block_view_def bind_Inl except_KeyError_def)

lemma block_view_ints:
  assumes "has_block_shape st buf bs"
  shows "block_view st buf c = Inr (SubView buf (map PInt (map2 (*) c bs)))"
proof -
  from assms obtain info v where reg: "mesh_tensor_info st (data buf) = Some info"
    and v: "getitem info ''block_shape'' = Inr v"
    and seq: "v = PTuple (map PInt bs) \<or> v = PList (map PInt bs)"
    by (auto simp: has_block_shape_def split: option.splits sum.splits)
  from seq have "py_iter v = Inr (map PInt bs)" by auto
  with reg v show ?thesis
    by (simp add: block_view_def bind_Inr mul_zip_ints except_KeyError_def)
qed

subsection \<open>Facts about the store\<close>

text \<open>
  What \<open>cells_kept\<close> gives cell by cell; a value read in a heap is read in every
  extension of it; \<open>alloc\<close> extends the heap; a value that was read within \<open>n\<close> has depth
  at most \<open>n\<close>; and a value built by \<open>alloc\<close> is read back, within its depth, in every
  heap that has kept the cells \<open>alloc\<close> added.
\<close>

lemma cells_kept_nth:
  "cells_kept lo h' h'' \<Longrightarrow> lo \<le> a \<Longrightarrow> a < length h' \<Longrightarrow> a < length h'' \<and> h'' ! a = h' ! a"
proof -
  assume k: "cells_kept lo h' h''" and lo: "lo \<le> a" and a: "a < length h'"
  from k have len: "length h' \<le> length h''"
    and eq: "drop lo (take (length h') h'') = drop lo h'"
    by (simp_all add: cells_kept_def)
  have "drop lo (take (length h') h'') ! (a - lo) = h'' ! a"
    using lo a len by simp
  moreover have "drop lo h' ! (a - lo) = h' ! a"
    using lo a by simp
  ultimately show ?thesis using eq a len by simp
qed

lemma cells_kept_prefix:
  "cells_kept lo (h1 @ cs) h'' \<Longrightarrow> lo \<le> lo' \<Longrightarrow> cells_kept lo' h1 h''"
proof -
  assume k: "cells_kept lo (h1 @ cs) h''" and lo: "lo \<le> lo'"
  from k have len: "length h1 \<le> length h''" by (simp add: cells_kept_def)
  have "drop lo' (take (length h1) h'') = drop lo' h1"
  proof (rule nth_equalityI)
    show "length (drop lo' (take (length h1) h'')) = length (drop lo' h1)"
      using len by simp
  next
    fix i assume "i < length (drop lo' (take (length h1) h''))"
    then have i: "lo' + i < length h1" using len by simp
    with cells_kept_nth [OF k, of "lo' + i"] lo
    have "h'' ! (lo' + i) = (h1 @ cs) ! (lo' + i)" by simp
    with i show "drop lo' (take (length h1) h'') ! i = drop lo' h1 ! i"
      using len by (simp add: nth_append)
  qed
  with len show ?thesis by (simp add: cells_kept_def)
qed

lemma cells_kept_from:
  "cells_kept lo h' h'' \<Longrightarrow> lo \<le> lo' \<Longrightarrow> cells_kept lo' h' h''"
  using cells_kept_prefix [of lo h' "[]" h'' lo'] by simp

lemma read_append:
  "read n h v = Some t \<Longrightarrow> read n (h @ cs) v = Some t"
  "reads n h vs = Some ts \<Longrightarrow> reads n (h @ cs) vs = Some ts"
  "read_items n h kvs = Some kts \<Longrightarrow> read_items n (h @ cs) kvs = Some kts"
proof (induction n h v and n h vs and n h kvs arbitrary: t and ts and kts
    rule: read_reads_read_items.induct)
  case (6 n h a)
  then show ?case
    by (auto simp: nth_append split: if_splits hobj.splits)
qed (auto split: option.splits)

lemma alloc_extends:
  "alloc h t = (v, h') \<Longrightarrow> \<exists>cs. h' = h @ cs"
  "allocs h ts = (vs, h') \<Longrightarrow> \<exists>cs. h' = h @ cs"
  "alloc_items h kts = (kvs, h') \<Longrightarrow> \<exists>cs. h' = h @ cs"
proof (induction h t and h ts and h kts arbitrary: v h' and vs h' and kvs h'
    rule: alloc_allocs_alloc_items.induct)
qed (fastforce split: prod.splits)+

lemma read_rdepth:
  "read n h v = Some t \<Longrightarrow> rdepth t \<le> n"
  "reads n h vs = Some ts \<Longrightarrow> rdepths ts \<le> n"
  "read_items n h kvs = Some kts \<Longrightarrow> rdepth_items kts \<le> n"
proof (induction n h v and n h vs and n h kvs arbitrary: t and ts and kts
    rule: read_reads_read_items.induct)
qed (auto split: option.splits if_splits hobj.splits)


lemma read_alloc:
  "alloc h t = (v, h') \<Longrightarrow> rdepth t \<le> n \<Longrightarrow> cells_kept (length h) h' h''
     \<Longrightarrow> read n h'' v = Some t"
  "allocs h ts = (vs, h') \<Longrightarrow> rdepths ts \<le> n \<Longrightarrow> cells_kept (length h) h' h''
     \<Longrightarrow> reads n h'' vs = Some ts"
  "alloc_items h kts = (kvs, h') \<Longrightarrow> rdepth_items kts \<le> n \<Longrightarrow> cells_kept (length h) h' h''
     \<Longrightarrow> read_items n h'' kvs = Some kts"
proof (induction h t and h ts and h kts arbitrary: v h' n and vs h' n and kvs h' n
    rule: alloc_allocs_alloc_items.induct)
  case (1 h)
  then show ?case by auto
next
  case (2 h i)
  then show ?case by auto
next
  case (3 h s)
  then show ?case by auto
next
  case (4 h ts)
  obtain vs h1 where a: "allocs h ts = (vs, h1)" by (cases "allocs h ts")
  with 4 show ?case by auto
next
  case (5 h ts)
  obtain vs h1 where a: "allocs h ts = (vs, h1)" by (cases "allocs h ts")
  with "5.prems" have v: "v = HRef (length h1)" and h': "h' = h1 @ [HList vs]" by auto
  from "5.prems" obtain m where n: "n = Suc m" and d: "rdepths ts \<le> m"
    by (cases n) auto
  from alloc_extends(2) [OF a] have le: "length h \<le> length h1" by auto
  from "5.prems"(3) have k1: "cells_kept (length h) h1 h''"
    unfolding h' by (rule cells_kept_prefix) simp
  from cells_kept_nth [OF "5.prems"(3), of "length h1"] le
  have cell: "length h1 < length h''" "h'' ! length h1 = HList vs"
    by (simp_all add: h')
  from "5.IH" [OF a d k1] cell show ?case
    by (simp add: v n)
next
  case (6 h kts)
  obtain kvs h1 where a: "alloc_items h kts = (kvs, h1)" by (cases "alloc_items h kts")
  with "6.prems" have v: "v = HRef (length h1)" and h': "h' = h1 @ [HDict kvs]" by auto
  from "6.prems" obtain m where n: "n = Suc m" and d: "rdepth_items kts \<le> m"
    by (cases n) auto
  from alloc_extends(3) [OF a] have le: "length h \<le> length h1" by auto
  from "6.prems"(3) have k1: "cells_kept (length h) h1 h''"
    unfolding h' by (rule cells_kept_prefix) simp
  from cells_kept_nth [OF "6.prems"(3), of "length h1"] le
  have cell: "length h1 < length h''" "h'' ! length h1 = HDict kvs"
    by (simp_all add: h')
  from "6.IH" [OF a d k1] cell show ?case
    by (simp add: v n)
next
  case (7 h)
  then show ?case by auto
next
  case (8 h t ts)
  obtain v1 h1 where a1: "alloc h t = (v1, h1)" by (cases "alloc h t")
  obtain vs2 h2 where a2: "allocs h1 ts = (vs2, h2)" by (cases "allocs h1 ts")
  from "8.prems"(1) a1 a2 have vs: "vs = v1 # vs2" and h': "h' = h2" by auto
  from alloc_extends(1) [OF a1] have le: "length h \<le> length h1" by auto
  from alloc_extends(2) [OF a2] obtain cs where h2: "h2 = h1 @ cs" by auto
  from "8.prems"(3) have k1: "cells_kept (length h) h1 h''"
    unfolding h' h2 by (rule cells_kept_prefix) simp
  from "8.prems"(3) le have k2: "cells_kept (length h1) h2 h''"
    unfolding h' by (rule cells_kept_from)
  from "8.prems"(2) have d1: "rdepth t \<le> n" and d2: "rdepths ts \<le> n" by simp_all
  from "8.IH"(1) [OF a1 d1 k1] "8.IH"(2) [OF a1 [symmetric] a2 d2 k2]
  show ?case by (simp add: vs)
next
  case (9 h)
  then show ?case by auto
next
  case (10 h kt kts)
  obtain v1 h1 where a1: "alloc h (snd kt) = (v1, h1)" by (cases "alloc h (snd kt)")
  obtain kvs2 h2 where a2: "alloc_items h1 kts = (kvs2, h2)" by (cases "alloc_items h1 kts")
  from "10.prems"(1) a1 a2 have kvs: "kvs = (fst kt, v1) # kvs2" and h': "h' = h2" by auto
  from alloc_extends(1) [OF a1] have le: "length h \<le> length h1" by auto
  from alloc_extends(3) [OF a2] obtain cs where h2: "h2 = h1 @ cs" by auto
  from "10.prems"(3) have k1: "cells_kept (length h) h1 h''"
    unfolding h' h2 by (rule cells_kept_prefix) simp
  from "10.prems"(3) le have k2: "cells_kept (length h1) h2 h''"
    unfolding h' by (rule cells_kept_from)
  from "10.prems"(2) have d1: "rdepth (snd kt) \<le> n" and d2: "rdepth_items kts \<le> n" by simp_all
  from "10.IH"(1) [OF a1 d1 k1] "10.IH"(2) [OF a1 [symmetric] a2 d2 k2]
  show ?case by (simp add: kvs)
qed


text \<open>The tests of lines 46--51 on a reference are the tests on the value it stands for.\<close>

lemma read_items_keys:
  "read_items n h kvs = Some kts \<Longrightarrow> map fst kts = map fst kvs"
  by (induction kvs arbitrary: kts) (auto split: option.splits)

lemma read_is_dict:
  "read n h v = Some t \<Longrightarrow> is_dict_h h v = is_dict t"
  by (cases v; cases n) (auto split: if_splits hobj.splits)

lemma read_items_key_set:
  "read_items n h kvs = Some kts \<Longrightarrow> fst ` set kts = fst ` set kvs"
  using read_items_keys [of n h kvs kts] by (metis set_map)

lemma read_has_key:
  "read n h v = Some t \<Longrightarrow> has_key_h h v k = has_key t k"
  by (cases v; cases n) (force split: if_splits hobj.splits simp: read_items_key_set)+

lemma read_info_ok:
  "read n h v = Some t \<Longrightarrow> info_ok_h h v = info_ok t"
  by (simp add: info_ok_h_def info_ok_def read_is_dict read_has_key)

text \<open>
  The copy: it extends the heap, it is a dictionary when the original is, and in every
  heap that has kept its cells it reads as the original did when it was copied.
\<close>

lemma cells_kept_refl: "cells_kept lo h h"
  by (simp add: cells_kept_def)

lemma deepcopy_h_Some:
  "deepcopy_h n h v = Some (c, h') \<Longrightarrow> \<exists>t. read n h v = Some t \<and> alloc h t = (c, h')"
  by (auto simp: deepcopy_h_def)

lemma deepcopy_h_extends:
  "deepcopy_h n h v = Some (c, h') \<Longrightarrow> \<exists>cs. h' = h @ cs"
  by (auto dest!: deepcopy_h_Some alloc_extends(1))

lemma deepcopy_h_dict:
  assumes "deepcopy_h n h v = Some (c, h')" "is_dict_h h v"
  shows "c \<noteq> HNone"
proof -
  from assms(1) obtain t where rd: "read n h v = Some t" and a: "alloc h t = (c, h')"
    by (auto dest: deepcopy_h_Some)
  from rd assms(2) have "is_dict t" by (simp add: read_is_dict)
  then obtain kts where "t = PDict kts" by (cases t) simp_all
  with a show ?thesis by (auto split: prod.splits)
qed

lemma deepcopy_h_read:
  assumes "deepcopy_h n h v = Some (c, h')" "read n h v = Some t" "cells_kept (length h) h' h''"
  shows "read n h'' c = Some t"
proof -
  from assms(1,2) have a: "alloc h t = (c, h')" by (auto dest: deepcopy_h_Some)
  from assms(2) have "rdepth t \<le> n" by (rule read_rdepth(1))
  with a show ?thesis using assms(3) by (rule read_alloc(1))
qed

text \<open>
  The loop: it extends the heap, it leaves alone the keys that are the storage of no
  entry, and when it ends without raising, the key of an entry holds the copy made for
  the last entry with that storage.
\<close>

lemma annotate_loop_h_Cons:
  "annotate_loop_h n ((b, v) # rest) reg h =
     (if info_ok_h h v
      then (case deepcopy_h n h v of
              None \<Rightarrow> None
            | Some (c, h') \<Rightarrow> annotate_loop_h n rest (reg(data b \<mapsto> c)) h')
      else map_option (\<lambda>t. (Some (ValueError (InvalidInfoMsg t)), reg, h)) (read n h v))"
  unfolding info_ok_h_def by simp

declare annotate_loop_h.simps(2) [simp del]

lemma annotate_loop_h_ok_Cons:
  "annotate_loop_h n ((b, v) # rest) reg h = Some (None, reg', h') \<Longrightarrow>
   \<exists>c h1. info_ok_h h v \<and> deepcopy_h n h v = Some (c, h1)
      \<and> annotate_loop_h n rest (reg(data b \<mapsto> c)) h1 = Some (None, reg', h')"
  by (auto simp: annotate_loop_h_Cons split: if_splits option.splits)

lemma annotate_loop_h_extends:
  "annotate_loop_h n items reg h = Some (e, reg', h') \<Longrightarrow> \<exists>cs. h' = h @ cs"
proof (induction items arbitrary: reg h)
  case Nil
  then show ?case by simp
next
  case (Cons bi items)
  obtain b v where bi: "bi = (b, v)" by (cases bi)
  show ?case
  proof (cases "info_ok_h h v")
    case False
    with Cons.prems show ?thesis by (auto simp: bi annotate_loop_h_Cons)
  next
    case True
    with Cons.prems obtain c h1 where d: "deepcopy_h n h v = Some (c, h1)"
      and l: "annotate_loop_h n items (reg(data b \<mapsto> c)) h1 = Some (e, reg', h')"
      by (auto simp: bi annotate_loop_h_Cons split: option.splits)
    from deepcopy_h_extends [OF d] Cons.IH [OF l] show ?thesis by auto
  qed
qed

lemma annotate_loop_h_absent:
  "annotate_loop_h n items reg h = Some (e, reg', h') \<Longrightarrow> d \<notin> data ` fst ` set items
     \<Longrightarrow> reg' d = reg d"
proof (induction items arbitrary: reg h)
  case Nil
  then show ?case by simp
next
  case (Cons bi items)
  obtain b v where bi: "bi = (b, v)" by (cases bi)
  show ?case
  proof (cases "info_ok_h h v")
    case False
    with Cons.prems show ?thesis by (auto simp: bi annotate_loop_h_Cons)
  next
    case True
    with Cons.prems obtain c h1 where
      l: "annotate_loop_h n items (reg(data b \<mapsto> c)) h1 = Some (e, reg', h')"
      by (auto simp: bi annotate_loop_h_Cons split: option.splits)
    from Cons.prems(2) have "d \<notin> data ` fst ` set items" and "d \<noteq> data b"
      by (auto simp: bi)
    with Cons.IH [OF l] show ?thesis by simp
  qed
qed

lemma annotate_loop_h_entry:
  assumes "annotate_loop_h n (pre @ (b, v) # post) reg h = Some (None, reg', h')"
    and "\<forall>bi\<in>set post. data (fst bi) \<noteq> data b"
    and "read n h v = Some t"
    and "cells_kept (length h) h' h''"
  shows "\<exists>r. reg' (data b) = Some r \<and> r \<noteq> HNone \<and> read n h'' r = Some t"
  using assms
proof (induction pre arbitrary: reg h)
  case Nil
  from Nil.prems(1) obtain c h1 where d: "deepcopy_h n h v = Some (c, h1)"
    and ok: "info_ok_h h v"
    and l: "annotate_loop_h n post (reg(data b \<mapsto> c)) h1 = Some (None, reg', h')"
    by (auto dest: annotate_loop_h_ok_Cons)
  from d ok have c: "c \<noteq> HNone"
    by (auto simp: info_ok_h_def dest: deepcopy_h_dict)
  from Nil.prems(2) have "data b \<notin> data ` fst ` set post" by auto
  with annotate_loop_h_absent [OF l] have r: "reg' (data b) = Some c" by simp
  from annotate_loop_h_extends [OF l] obtain cs where h': "h' = h1 @ cs" by auto
  from Nil.prems(4) have "cells_kept (length h) h1 h''"
    unfolding h' by (rule cells_kept_prefix) simp
  with d Nil.prems(3) have "read n h'' c = Some t" by (rule deepcopy_h_read)
  with r c show ?case by simp
next
  case (Cons bi pre)
  obtain b0 v0 where bi: "bi = (b0, v0)" by (cases bi)
  from Cons.prems(1) obtain c h1 where d: "deepcopy_h n h v0 = Some (c, h1)"
    and l: "annotate_loop_h n (pre @ (b, v) # post) (reg(data b0 \<mapsto> c)) h1 = Some (None, reg', h')"
    by (auto simp: bi dest: annotate_loop_h_ok_Cons)
  from deepcopy_h_extends [OF d] obtain cs where h1: "h1 = h @ cs" by auto
  from Cons.prems(3) have rd: "read n h1 v = Some t"
    unfolding h1 by (rule read_append(1))
  from Cons.prems(4) have k: "cells_kept (length h1) h' h''"
    by (rule cells_kept_from) (simp add: h1)
  from Cons.IH [OF l Cons.prems(2) rd k] show ?case .
qed

lemma distinct_split_last:
  assumes "distinct (map f items)" "x \<in> set items"
  shows "\<exists>pre post. items = pre @ x # post \<and> (\<forall>y\<in>set post. f y \<noteq> f x)"
proof -
  from assms(2) obtain pre post where s: "items = pre @ x # post"
    by (auto simp: in_set_conv_decomp)
  with assms(1) have "f x \<notin> f ` set post" by simp
  then have "\<forall>y\<in>set post. f y \<noteq> f x" by (metis imageI)
  with s show ?thesis by blast
qed

lemma annotate_h_ok_loop:
  "annotate_mesh_tensor_info_h n st h items = Some (Inr tok, st', h') \<Longrightarrow>
   annotate_loop_h n items Map.empty h = Some (None, mesh_tensor_info_h st', h')"
  by (auto simp: annotate_mesh_tensor_info_h_def split: option.splits)

text \<open>
  The embedding over the heap against the embedding on values: when every info of the
  mapping has a value within \<open>n\<close>, the call over the heap returns, it raises exactly
  when the call on the values raises, with the same error, and the registry it leaves
  stands for the registry the call on the values leaves.
\<close>

lemma rel_reg_append:
  "rel_reg n h reg vreg \<Longrightarrow> rel_reg n (h @ cs) reg vreg"
  unfolding rel_reg_def
proof
  fix d
  assume r: "\<forall>d. case reg d of
            None \<Rightarrow> vreg d = None
          | Some r \<Rightarrow> (\<exists>t. vreg d = Some t \<and> read n h r = Some t)"
  show "case reg d of
            None \<Rightarrow> vreg d = None
          | Some r \<Rightarrow> (\<exists>t. vreg d = Some t \<and> read n (h @ cs) r = Some t)"
    using spec [OF r, of d] by (auto split: option.splits intro: read_append(1))
qed

lemma rel_reg_upd:
  "rel_reg n h reg vreg \<Longrightarrow> read n h c = Some t \<Longrightarrow> rel_reg n h (reg(d \<mapsto> c)) (vreg(d \<mapsto> t))"
  unfolding rel_reg_def
proof
  fix d'
  assume r: "\<forall>d. case reg d of
            None \<Rightarrow> vreg d = None
          | Some r \<Rightarrow> (\<exists>t. vreg d = Some t \<and> read n h r = Some t)"
    and c: "read n h c = Some t"
  show "case (reg(d \<mapsto> c)) d' of
            None \<Rightarrow> (vreg(d \<mapsto> t)) d' = None
          | Some r \<Rightarrow> (\<exists>ta. (vreg(d \<mapsto> t)) d' = Some ta \<and> read n h r = Some ta)"
    using spec [OF r, of d'] c by (cases "d' = d"; cases "reg d'") simp_all
qed

lemma annotate_loop_h_refines:
  assumes "list_all2 (\<lambda>bi bt. fst bi = fst bt \<and> read n h (snd bi) = Some (snd bt)) items titems"
    and "rel_reg n h reg vreg"
  shows "\<exists>reg' h'. annotate_loop_h n items reg h = Some (fst (annotate_loop titems vreg), reg', h')
           \<and> rel_reg n h' reg' (snd (annotate_loop titems vreg))"
  using assms
proof (induction items arbitrary: titems reg vreg h)
  case Nil
  then show ?case by simp
next
  case (Cons bi items)
  obtain b v where bi: "bi = (b, v)" by (cases bi)
  from Cons.prems(1) obtain t trest where ti: "titems = (b, t) # trest"
    and rd: "read n h v = Some t"
    and rest: "list_all2 (\<lambda>bi bt. fst bi = fst bt \<and> read n h (snd bi) = Some (snd bt)) items trest"
    by (auto simp: bi list_all2_Cons1)
  show ?case
  proof (cases "info_ok t")
    case False
    with rd Cons.prems(2) show ?thesis
      by (simp add: bi ti annotate_loop_h_Cons annotate_loop_Cons read_info_ok)
  next
    case True
    obtain c h1 where a: "alloc h t = (c, h1)" by (cases "alloc h t")
    with rd have d: "deepcopy_h n h v = Some (c, h1)" by (simp add: deepcopy_h_def)
    from alloc_extends(1) [OF a] obtain cs where h1: "h1 = h @ cs" by auto
    from d rd have rc: "read n h1 c = Some t"
      by (rule deepcopy_h_read) (rule cells_kept_refl)
    from Cons.prems(2) have "rel_reg n h1 reg vreg"
      unfolding h1 by (rule rel_reg_append)
    then have rr: "rel_reg n h1 (reg(data b \<mapsto> c)) (vreg(data b \<mapsto> t))"
      using rc by (rule rel_reg_upd)
    from rest have rest1:
      "list_all2 (\<lambda>bi bt. fst bi = fst bt \<and> read n h1 (snd bi) = Some (snd bt)) items trest"
      unfolding h1 by (rule list_all2_mono) (auto intro: read_append(1))
    from Cons.IH [OF rest1 rr] obtain reg' h' where
      l: "annotate_loop_h n items (reg(data b \<mapsto> c)) h1
            = Some (fst (annotate_loop trest (vreg(data b \<mapsto> t))), reg', h')"
      and r: "rel_reg n h' reg' (snd (annotate_loop trest (vreg(data b \<mapsto> t))))"
      by blast
    have lhs: "annotate_loop_h n (bi # items) reg h
                 = annotate_loop_h n items (reg(data b \<mapsto> c)) h1"
      using True rd d by (simp add: bi annotate_loop_h_Cons read_info_ok)
    have rhs: "annotate_loop titems vreg = annotate_loop trest (vreg(data b \<mapsto> t))"
      using True by (simp add: ti annotate_loop_Cons)
    show ?thesis unfolding lhs rhs using l r by blast
  qed
qed


lemma rel_reg_empty: "rel_reg n h Map.empty Map.empty"
  by (simp add: rel_reg_def)

lemma annotate_h_refines:
  assumes "list_all2 (\<lambda>bi bt. fst bi = fst bt \<and> read n h (snd bi) = Some (snd bt)) items titems"
  shows "\<exists>res st' h'. annotate_mesh_tensor_info_h n st h items = Some (res, st', h')
           \<and> (case res of
                 Inl e \<Rightarrow> fst (annotate_mesh_tensor_info sta titems) = Inl e
               | Inr tok \<Rightarrow> (\<exists>vtok. fst (annotate_mesh_tensor_info sta titems) = Inr vtok))
           \<and> rel_reg n h' (mesh_tensor_info_h st')
                 (mesh_tensor_info (snd (annotate_mesh_tensor_info sta titems)))"
proof -
  from annotate_loop_h_refines [OF assms rel_reg_empty] obtain reg' h' where
    l: "annotate_loop_h n items Map.empty h = Some (fst (annotate_loop titems Map.empty), reg', h')"
    and r: "rel_reg n h' reg' (snd (annotate_loop titems Map.empty))"
    by blast
  obtain e vreg where v: "annotate_loop titems Map.empty = (e, vreg)"
    by (cases "annotate_loop titems Map.empty")
  show ?thesis
    using l r by (cases e) (simp_all add: annotate_mesh_tensor_info_h_def annotate_mesh_tensor_info_def v)
qed

text \<open>The calls of the examples.\<close>

lemma read_ref_A: "read 2 heap_old ref_A = Some info_A"
  by (simp add: heap_old_def heap_0_def ref_A_def info_A_def numeral_2_eq_2)

lemma read_ref_B: "read 2 heap_0 ref_B = Some info_B"
  by (simp add: heap_0_def ref_B_def info_B_def numeral_2_eq_2)

lemma st_old_h_eq:
  "annotate_mesh_tensor_info_h 2 mesh_2x4_h heap_0 [(buf_B, ref_B)]
     = Some (Inr (FuncAttrH [data buf_B \<mapsto> HRef 6]), st_old_h, heap_old)"
  by (simp add: annotate_mesh_tensor_info_h_def annotate_loop_h_Cons info_ok_h_def deepcopy_h_def
      read_ref_B info_B_def st_old_h_def heap_old_def)
    (simp add: heap_0_def ref_B_def eval_nat_numeral)

lemma st_new_h_eq:
  "annotate_mesh_tensor_info_h 2 st_old_h heap_old [(buf_A, ref_A)]
     = Some (Inr (FuncAttrH [data buf_A \<mapsto> HRef 8]), st_new_h, heap_new)"
  by (simp add: annotate_mesh_tensor_info_h_def annotate_loop_h_Cons info_ok_h_def deepcopy_h_def
      read_ref_A info_A_def st_new_h_def st_old_h_def heap_new_def)
    (simp add: heap_old_def heap_0_def ref_A_def eval_nat_numeral)

lemma read_ref_B_new: "read 2 heap_new ref_B = Some info_B"
  by (simp add: heap_new_def heap_old_def heap_0_def ref_B_def info_B_def numeral_2_eq_2)

lemma st_two_h_eq:
  "annotate_mesh_tensor_info_h 2 st_old_h heap_old [(buf_A, ref_A), (buf_A2, ref_B)]
     = Some (Inr (FuncAttrH [data buf_A \<mapsto> HRef 10]), st_two_h, heap_two)"
proof -
  have a: "deepcopy_h 2 heap_old ref_A = Some (HRef 8, heap_new)"
    by (simp add: deepcopy_h_def read_ref_A info_A_def heap_new_def)
      (simp add: heap_old_def heap_0_def eval_nat_numeral)
  have b: "deepcopy_h 2 heap_new ref_B = Some (HRef 10, heap_two)"
    by (simp add: deepcopy_h_def read_ref_B_new info_B_def heap_two_def)
      (simp add: heap_new_def heap_old_def heap_0_def eval_nat_numeral)
  have oa: "info_ok_h heap_old ref_A"
    by (simp add: info_ok_h_def heap_old_def heap_0_def ref_A_def)
  have ob: "info_ok_h heap_new ref_B"
    by (simp add: info_ok_h_def heap_new_def heap_old_def heap_0_def ref_B_def)
  show ?thesis
    by (simp add: annotate_mesh_tensor_info_h_def annotate_loop_h_Cons a b oa ob
        st_two_h_def st_old_h_def buf_A_def buf_A2_def)
qed

section \<open>The claims\<close>

subsection \<open>The registry after a rejected annotate (C1)\<close>

text \<open>
  C1, as amended. When \<^verbatim>\<open>annotate_mesh_tensor_info\<close> raises, the mapping splits at its
  first rejected entry, whose info the error prints; the registry after the call is the
  one built from the entries before it, from an empty dictionary: the previous registry
  is dropped whole and every entry present comes from the new mapping. The mesh shape is
  unchanged.
\<close>

theorem annotate_failure_registry:
  assumes "fst (annotate_mesh_tensor_info st items) = Inl e"
  shows "(\<exists>b info post.
            items = takeWhile (\<lambda>bi. info_ok (snd bi)) items @ (b, info) # post
            \<and> \<not> info_ok info \<and> e = ValueError (InvalidInfoMsg info))
         \<and> mesh_tensor_info (snd (annotate_mesh_tensor_info st items))
             = registry_of (takeWhile (\<lambda>bi. info_ok (snd bi)) items) Map.empty
         \<and> mesh_shape (snd (annotate_mesh_tensor_info st items)) = mesh_shape st
         \<and> (\<forall>d i. mesh_tensor_info (snd (annotate_mesh_tensor_info st items)) d = Some i
               \<longrightarrow> (\<exists>b. (b, i) \<in> set (takeWhile (\<lambda>bi. info_ok (snd bi)) items)
                        \<and> data b = d))"
proof -
  obtain bi where found: "find (\<lambda>bi. \<not> info_ok (snd bi)) items = Some bi"
    and e: "e = ValueError (InvalidInfoMsg (snd bi))"
    using assms by (auto simp: annotate_eq split: option.splits)
  from found have bad: "\<not> info_ok (snd bi)"
    by (auto dest: find_Some_in)
  from found obtain post
    where "items = takeWhile (\<lambda>bi. info_ok (snd bi)) items @ bi # post"
    by (auto dest: find_Some_split)
  then have "items = takeWhile (\<lambda>bi. info_ok (snd bi)) items @ (fst bi, snd bi) # post"
    by simp
  with bad e have first: "\<exists>b info post.
      items = takeWhile (\<lambda>bi. info_ok (snd bi)) items @ (b, info) # post
      \<and> \<not> info_ok info \<and> e = ValueError (InvalidInfoMsg info)"
    by blast
  have "\<exists>b. (b, i) \<in> set pre \<and> data b = d" if "registry_of pre Map.empty d = Some i"
    for pre d i
    using registry_of_source [OF that] by simp
  then have rest: "mesh_tensor_info (snd (annotate_mesh_tensor_info st items))
             = registry_of (takeWhile (\<lambda>bi. info_ok (snd bi)) items) Map.empty
         \<and> mesh_shape (snd (annotate_mesh_tensor_info st items)) = mesh_shape st
         \<and> (\<forall>d i. mesh_tensor_info (snd (annotate_mesh_tensor_info st items)) d = Some i
               \<longrightarrow> (\<exists>b. (b, i) \<in> set (takeWhile (\<lambda>bi. info_ok (snd bi)) items)
                        \<and> data b = d))"
    by (simp add: annotate_eq)
  from first rest show ?thesis by (rule conjI)
qed

theorem annotate_failure_registry_witness:
  "fst (annotate_mesh_tensor_info st_old [(buf_A, info_A), (buf_B, PStr ''bad'')])
     = Inl (ValueError (InvalidInfoMsg (PStr ''bad'')))
   \<and> mesh_tensor_info (snd (annotate_mesh_tensor_info st_old
         [(buf_A, info_A), (buf_B, PStr ''bad'')]))
       = [data buf_A \<mapsto> info_A]"
proof -
  have f: "fst (annotate_mesh_tensor_info st_old [(buf_A, info_A), (buf_B, PStr ''bad'')])
     = Inl (ValueError (InvalidInfoMsg (PStr ''bad'')))"
    by (simp add: annotate_mesh_tensor_info_def annotate_loop_Cons info_ok_def info_A_def)
  have "takeWhile (\<lambda>bi. info_ok (snd bi)) [(buf_A, info_A), (buf_B, PStr ''bad'')]
          = [(buf_A, info_A)]"
    by (simp add: info_ok_def info_A_def)
  with annotate_failure_registry [OF f, THEN conjunct2, THEN conjunct1] f show ?thesis
    by (simp only: registry_of_Cons registry_of_Nil fst_conv snd_conv simp_thms)
qed

text \<open>
  C1 as stated fails: the rejected call updates the registry in part. Before the call the
  registry holds \<open>buf_B\<close> and not \<open>buf_A\<close>; the call is rejected at its second entry; after
  it the registry holds \<open>buf_A\<close>, taken from the rejected mapping, and no longer \<open>buf_B\<close>.
\<close>

theorem annotate_failure_partial_update:
  "fst (annotate_mesh_tensor_info st_old [(buf_A, info_A), (buf_B, info_no_pid)])
     = Inl (ValueError (InvalidInfoMsg info_no_pid))
   \<and> mesh_tensor_info st_old (data buf_A) = None
   \<and> mesh_tensor_info st_old (data buf_B) = Some info_B
   \<and> mesh_tensor_info (snd (annotate_mesh_tensor_info st_old
         [(buf_A, info_A), (buf_B, info_no_pid)])) (data buf_A) = Some info_A
   \<and> mesh_tensor_info (snd (annotate_mesh_tensor_info st_old
         [(buf_A, info_A), (buf_B, info_no_pid)])) (data buf_B) = None"
  by (simp add: st_old_eq annotate_mesh_tensor_info_def annotate_loop_Cons info_ok_def
        info_A_def info_no_pid_def buf_A_def buf_B_def)

subsection \<open>Coordinates and block shape of different lengths (C2)\<close>




subsection \<open>Which entries annotate rejects (C3)\<close>

text \<open>
  C3, as amended. \<^verbatim>\<open>annotate_mesh_tensor_info\<close> raises exactly when some entry's info
  is not a dictionary or lacks one of the three keys \<^verbatim>\<open>block_shape\<close>, \<^verbatim>\<open>program_id\<close>,
  \<^verbatim>\<open>sharding\<close> (\<open>info_ok\<close>); the error is the \<^verbatim>\<open>ValueError\<close> of line 52 (the spec's
  \<open>SchemaError\<close>) and its message prints the info of the first such entry. When no entry
  is rejected the call returns the attribute object over all the entries.
\<close>

theorem annotate_rejects_iff:
  "((\<exists>e. fst (annotate_mesh_tensor_info st items) = Inl e)
      \<longleftrightarrow> (\<exists>bi\<in>set items. \<not> info_ok (snd bi)))
   \<and> fst (annotate_mesh_tensor_info st items) =
       (case find (\<lambda>bi. \<not> info_ok (snd bi)) items of
          None \<Rightarrow> Inr (FuncAttr (registry_of items Map.empty))
        | Some bi \<Rightarrow> Inl (ValueError (InvalidInfoMsg (snd bi))))"
proof (cases "find (\<lambda>bi. \<not> info_ok (snd bi)) items")
  case None
  then have all: "\<not> (\<exists>bi\<in>set items. \<not> info_ok (snd bi))"
    by (auto simp: find_None_iff)
  from None have tw: "takeWhile (\<lambda>bi. info_ok (snd bi)) items = items"
    by (rule find_None_takeWhile)
  from None all show ?thesis by (simp add: annotate_eq tw)
next
  case (Some bi)
  then have "bi \<in> set items \<and> \<not> info_ok (snd bi)" by (rule find_Some_in)
  then have "\<exists>bi\<in>set items. \<not> info_ok (snd bi)" by blast
  with Some show ?thesis by (simp add: annotate_eq)
qed

theorem annotate_rejects_iff_witness:
  "fst (annotate_mesh_tensor_info mesh_2x4 [(buf_A, info_A), (buf_B, PNone)])
     = Inl (ValueError (InvalidInfoMsg PNone))
   \<and> fst (annotate_mesh_tensor_info mesh_2x4 [(buf_A, info_A)])
     = Inr (FuncAttr [data buf_A \<mapsto> info_A])"
  using annotate_rejects_iff [of mesh_2x4 "[(buf_A, info_A), (buf_B, PNone)]"]
    annotate_rejects_iff [of mesh_2x4 "[(buf_A, info_A)]"]
  by (simp add: info_ok_def info_A_def registry_of_Cons registry_of_Nil)

text \<open>
  C3 as stated fails: an entry that has \<^verbatim>\<open>block_shape\<close> and \<^verbatim>\<open>sharding\<close> and lacks only
  \<^verbatim>\<open>program_id\<close> is rejected.
\<close>

theorem annotate_requires_program_id:
  "is_dict info_no_pid \<and> has_key info_no_pid ''block_shape''
   \<and> has_key info_no_pid ''sharding''
   \<and> fst (annotate_mesh_tensor_info mesh_2x4 [(buf_A, info_no_pid)])
       = Inl (ValueError (InvalidInfoMsg info_no_pid))"
  by (simp add: annotate_mesh_tensor_info_def annotate_loop_Cons info_ok_def info_no_pid_def)

subsection \<open>Failure of the factory (C4)\<close>

text \<open>
  C4, as amended. The factory fails, with the \<^verbatim>\<open>ValueError\<close> of line 32 (the spec's
  \<open>ConfigError\<close>), exactly when the configuration is not a dictionary that has both keys
  \<^verbatim>\<open>"x"\<close> and \<^verbatim>\<open>"y"\<close>; otherwise it returns the state holding the configuration and
  an empty registry. The values under the two keys are not examined.
\<close>

theorem mesh_tensor_functions_fails_iff:
  "mesh_tensor_functions cfg =
     (if \<exists>kvs. cfg = PDict kvs \<and> ''x'' \<in> fst ` set kvs \<and> ''y'' \<in> fst ` set kvs
      then Inr \<lparr>mesh_shape = cfg, mesh_tensor_info = Map.empty\<rparr>
      else Inl (ValueError MeshShapeMsg))"
  by (cases cfg) (auto simp: mesh_tensor_functions_def deepcopy_id)

theorem mesh_tensor_functions_fails_iff_witness:
  "mesh_tensor_functions (PDict [(''x'', PInt 2)]) = Inl (ValueError MeshShapeMsg)
   \<and> mesh_tensor_functions (PList [PInt 2, PInt 4]) = Inl (ValueError MeshShapeMsg)
   \<and> mesh_tensor_functions (PDict [(''x'', PInt 2), (''y'', PInt 4)]) = Inr mesh_2x4"
  using mesh_tensor_functions_fails_iff [of "PDict [(''x'', PInt 2)]"]
    mesh_tensor_functions_fails_iff [of "PList [PInt 2, PInt 4]"]
    mesh_tensor_functions_fails_iff [of "PDict [(''x'', PInt 2), (''y'', PInt 4)]"]
  by (simp add: mesh_2x4_def)

text \<open>
  C4 as stated fails: a configuration whose counts are zero and negative, and one whose
  counts are a string and \<^verbatim>\<open>None\<close>, are both accepted.
\<close>

theorem mesh_counts_not_checked:
  "mesh_tensor_functions (PDict [(''x'', PInt 0), (''y'', PInt (- 3))])
     = Inr \<lparr>mesh_shape = PDict [(''x'', PInt 0), (''y'', PInt (- 3))],
            mesh_tensor_info = Map.empty\<rparr>
   \<and> mesh_tensor_functions (PDict [(''x'', PStr ''two''), (''y'', PNone)])
     = Inr \<lparr>mesh_shape = PDict [(''x'', PStr ''two''), (''y'', PNone)],
            mesh_tensor_info = Map.empty\<rparr>"
  by (simp add: mesh_tensor_functions_def)

subsection \<open>The tile shape of a tensor sharded on two dimensions (C5)\<close>

text \<open>
  C5. For a registered buffer whose sharding maps axis \<^verbatim>\<open>"x"\<close> to dimension \<open>dx\<close> and
  axis \<^verbatim>\<open>"y"\<close> to a different dimension \<open>dy\<close>, and a mesh with positive counts \<open>nx\<close> and
  \<open>ny\<close>, \<^verbatim>\<open>get_tile_shape\<close> returns the global shape with dimension \<open>dx\<close> replaced by
  \<open>ceilDivide (shape ! dx) nx = (shape ! dx + nx - 1) div nx\<close> and dimension \<open>dy\<close> by
  \<open>ceilDivide (shape ! dy) ny\<close>; every other dimension is unchanged. The witness is the two
  scenarios of the spec: \<open>(128, 256)\<close> on the mesh 2 by 4 gives \<open>(64, 64)\<close>, and
  \<open>(100, 256)\<close> on the mesh 3 by 4 gives \<open>(34, 64)\<close>.
\<close>

theorem tile_shape_two_axes:
  assumes sh: "has_sharding st b (PInt dx) (PInt dy)"
    and dx: "valid_dim b dx" and dy: "valid_dim b dy"
    and neq: "dx \<noteq> dy"
    and mesh: "mesh_counts st nx ny"
    and pos: "0 < nx" "0 < ny"
  shows "get_tile_shape st b =
           Inr ((shape b)[nat dx := ceilDivide (shape b ! nat dx) nx,
                          nat dy := ceilDivide (shape b ! nat dy) ny])
         \<and> (\<forall>tile. get_tile_shape st b = Inr tile \<longrightarrow>
               length tile = length (shape b)
               \<and> tile ! nat dx = ceilDivide (shape b ! nat dx) nx
               \<and> ceilDivide (shape b ! nat dx) nx = (shape b ! nat dx + nx - 1) div nx
               \<and> tile ! nat dy = ceilDivide (shape b ! nat dy) ny
               \<and> ceilDivide (shape b ! nat dy) ny = (shape b ! nat dy + ny - 1) div ny
               \<and> (\<forall>k < length (shape b). k \<noteq> nat dx \<and> k \<noteq> nat dy \<longrightarrow> tile ! k = shape b ! k))"
proof -
  from sh obtain info s where reg: "mesh_tensor_info st (data b) = Some info"
    and s: "getitem info ''sharding'' = Inr s"
    and x: "getitem s ''x'' = Inr (PInt dx)" and y: "getitem s ''y'' = Inr (PInt dy)"
    by (rule has_shardingD)
  from mesh have mx: "getitem (mesh_shape st) ''x'' = Inr (PInt nx)"
    and my: "getitem (mesh_shape st) ''y'' = Inr (PInt ny)"
    by (simp_all add: mesh_counts_def)
  from dx dy have bx: "0 \<le> dx" "dx < int (length (shape b))"
    and by': "0 \<le> dy" "dy < int (length (shape b))"
    by (simp_all add: valid_dim_def)
  from pos have nz: "nx \<noteq> 0" "ny \<noteq> 0" by simp_all
  from bx by' neq have ne: "nat dx \<noteq> nat dy" by simp
  from bx by' have lt: "nat dx < length (shape b)" "nat dy < length (shape b)" by simp_all
  have eq: "get_tile_shape st b =
           Inr ((shape b)[nat dx := ceilDivide (shape b ! nat dx) nx,
                  nat dy := ceilDivide (shape b ! nat dy) ny])"
    using get_tile_shape_registered [OF reg s x y bx by' mx my nz] ne by simp
  have "((shape b)[nat dx := ceilDivide (shape b ! nat dx) nx,
                  nat dy := ceilDivide (shape b ! nat dy) ny]) ! nat dx
                 = ceilDivide (shape b ! nat dx) nx"
    using ne lt by simp
  moreover have "((shape b)[nat dx := ceilDivide (shape b ! nat dx) nx,
                  nat dy := ceilDivide (shape b ! nat dy) ny]) ! nat dy
                 = ceilDivide (shape b ! nat dy) ny"
    using lt by simp
  moreover have "\<forall>k < length (shape b). k \<noteq> nat dx \<and> k \<noteq> nat dy \<longrightarrow>
      ((shape b)[nat dx := ceilDivide (shape b ! nat dx) nx,
                  nat dy := ceilDivide (shape b ! nat dy) ny]) ! k = shape b ! k"
    by simp
  ultimately show ?thesis by (simp add: eq ceilDivide_def)
qed

theorem tile_shape_two_axes_witness:
  "get_tile_shape (snd (annotate_mesh_tensor_info mesh_2x4 [(buf_A, info_A)])) buf_A = Inr [64, 64]
   \<and> get_tile_shape (snd (annotate_mesh_tensor_info mesh_3x4 [(buf_B, info_A)])) buf_B = Inr [34, 64]"
proof -
  have a: "snd (annotate_mesh_tensor_info mesh_2x4 [(buf_A, info_A)])
             = mesh_2x4\<lparr>mesh_tensor_info := [data buf_A \<mapsto> info_A]\<rparr>"
    by (simp add: annotate_mesh_tensor_info_def annotate_loop_Cons info_ok_def info_A_def)
  have b: "snd (annotate_mesh_tensor_info mesh_3x4 [(buf_B, info_A)])
             = mesh_3x4\<lparr>mesh_tensor_info := [data buf_B \<mapsto> info_A]\<rparr>"
    by (simp add: annotate_mesh_tensor_info_def annotate_loop_Cons info_ok_def info_A_def)
  have "get_tile_shape (mesh_2x4\<lparr>mesh_tensor_info := [data buf_A \<mapsto> info_A]\<rparr>) buf_A
          = Inr [64, 64]"
    using tile_shape_two_axes [of "mesh_2x4\<lparr>mesh_tensor_info := [data buf_A \<mapsto> info_A]\<rparr>"
        buf_A 0 1 2 4, THEN conjunct1]
    by (simp add: has_sharding_def valid_dim_def mesh_counts_def mesh_2x4_def info_A_def
        buf_A_def ceilDivide_def)
  moreover have "get_tile_shape (mesh_3x4\<lparr>mesh_tensor_info := [data buf_B \<mapsto> info_A]\<rparr>) buf_B
          = Inr [34, 64]"
    using tile_shape_two_axes [of "mesh_3x4\<lparr>mesh_tensor_info := [data buf_B \<mapsto> info_A]\<rparr>"
        buf_B 0 1 3 4, THEN conjunct1]
    by (simp add: has_sharding_def valid_dim_def mesh_counts_def mesh_3x4_def info_A_def
        buf_B_def ceilDivide_def)
  ultimately show ?thesis by (simp only: a b simp_thms)
qed

subsection \<open>Lookup after a successful annotate (C6)\<close>

text \<open>
  C6. The registry is keyed by the storage of a buffer (\<^verbatim>\<open>buffer.data\<close>, line 55), the
  spec's tensor identity. Let \<^verbatim>\<open>annotate_mesh_tensor_info\<close> return, from the heap \<open>h\<close>
  in the heap \<open>h'\<close>, and let \<open>h''\<close> be any later heap in which the cells the call
  allocated are as the call left them: the caller's own dictionaries may have been
  mutated at will. Then a lookup on any buffer over the storage of an entry of the
  mapping returns a reference whose value in \<open>h''\<close> is the value the info supplied with
  that storage had when the call was made: the info of the last entry with that storage,
  and, when the entries of the mapping have distinct storages, the info supplied with
  each entry. A lookup on a buffer whose storage is that of no entry of the mapping fails
  with the \<^verbatim>\<open>ValueError\<close> of line 72 (the spec's \<open>NotFoundError\<close>), whatever the state
  before the call had registered. That the call returns whenever the infos have values
  within \<open>n\<close> is lemma \<open>annotate_h_refines\<close>.
\<close>

theorem lookup_after_annotate:
  assumes "annotate_mesh_tensor_info_h n st h items = Some (Inr tok, st', h')"
  shows "(items = pre @ (b, v) # post \<and> (\<forall>bi\<in>set post. data (fst bi) \<noteq> data b)
            \<and> data g = data b \<and> read n h v = Some t \<and> cells_kept (length h) h' h''
          \<longrightarrow> (\<exists>r. lookup_info_h st' g = Inr r \<and> read n h'' r = Some t))
       \<and> (distinct (map (\<lambda>bi. data (fst bi)) items) \<and> (b, v) \<in> set items
            \<and> data g = data b \<and> read n h v = Some t \<and> cells_kept (length h) h' h''
          \<longrightarrow> (\<exists>r. lookup_info_h st' g = Inr r \<and> read n h'' r = Some t))
       \<and> (data u \<notin> data ` fst ` set items
          \<longrightarrow> lookup_info_h st' u = Inl (ValueError (NotFoundMsg u)))"
proof -
  note l = annotate_h_ok_loop [OF assms]
  have one: "\<exists>r. lookup_info_h st' g = Inr r \<and> read n h'' r = Some t"
    if "items = pre @ (b, v) # post" "\<forall>bi\<in>set post. data (fst bi) \<noteq> data b"
      "data g = data b" "read n h v = Some t" "cells_kept (length h) h' h''"
    for pre post
  proof -
    from annotate_loop_h_entry [OF l [unfolded that(1)] that(2) that(4) that(5)]
    obtain r where "mesh_tensor_info_h st' (data b) = Some r" "r \<noteq> HNone"
      "read n h'' r = Some t" by auto
    then show ?thesis by (simp add: lookup_info_h_def that(3))
  qed
  have two: "\<exists>r. lookup_info_h st' g = Inr r \<and> read n h'' r = Some t"
    if "distinct (map (\<lambda>bi. data (fst bi)) items)" "(b, v) \<in> set items"
      "data g = data b" "read n h v = Some t" "cells_kept (length h) h' h''"
  proof -
    from distinct_split_last [OF that(1) that(2)] obtain pre post where
      "items = pre @ (b, v) # post" "\<forall>bi\<in>set post. data (fst bi) \<noteq> data b" by auto
    then show ?thesis using that(3-5) by (rule one)
  qed
  have three: "lookup_info_h st' u = Inl (ValueError (NotFoundMsg u))"
    if "data u \<notin> data ` fst ` set items"
    using annotate_loop_h_absent [OF l that] by (simp add: lookup_info_h_def)
  from one two three show ?thesis by blast
qed

theorem lookup_after_annotate_witness:
  "annotate_mesh_tensor_info_h 2 mesh_2x4_h heap_0 [(buf_B, ref_B)]
     = Some (Inr (FuncAttrH [data buf_B \<mapsto> HRef 6]), st_old_h, heap_old)
   \<and> read 2 heap_old ref_A = Some info_A
   \<and> (\<exists>r. lookup_info_h st_new_h buf_A = Inr r \<and> read 2 heap_mutated r = Some info_A)
   \<and> (\<exists>r. lookup_info_h st_new_h buf_A2 = Inr r \<and> read 2 heap_mutated r = Some info_A)
   \<and> read 2 heap_mutated ref_A = Some info_same_dim
   \<and> (\<exists>r. lookup_info_h st_two_h buf_A = Inr r \<and> read 2 heap_two r = Some info_B)
   \<and> lookup_info_h st_old_h buf_B = Inr (HRef 6)
   \<and> lookup_info_h st_new_h buf_B = Inl (ValueError (NotFoundMsg buf_B))"
proof -
  have k: "cells_kept (length heap_old) heap_new heap_mutated"
    by (simp add: cells_kept_def heap_mutated_def heap_new_def heap_old_def heap_0_def)
  have m: "read 2 heap_mutated ref_A = Some info_same_dim"
    by (simp add: heap_mutated_def heap_new_def heap_old_def heap_0_def ref_A_def
        info_same_dim_def numeral_2_eq_2)
  have old: "lookup_info_h st_old_h buf_B = Inr (HRef 6)"
    by (simp add: lookup_info_h_def st_old_h_def)
  have rb: "read 2 heap_old ref_B = Some info_B"
    by (simp add: heap_old_def heap_0_def ref_B_def info_B_def numeral_2_eq_2)
  have k2: "cells_kept (length heap_old) heap_two heap_two"
    by (rule cells_kept_refl)
  from lookup_after_annotate [OF st_new_h_eq, of "[]" buf_A ref_A "[]" buf_A info_A heap_mutated buf_B]
    lookup_after_annotate [OF st_new_h_eq, of "[]" buf_A ref_A "[]" buf_A2 info_A heap_mutated buf_B]
    lookup_after_annotate [OF st_two_h_eq, of "[(buf_A, ref_A)]" buf_A2 ref_B "[]" buf_A info_B
      heap_two buf_B]
    k k2 m old rb read_ref_A st_old_h_eq
  show ?thesis by (simp add: buf_A_def buf_A2_def buf_B_def)
qed

subsection \<open>What the copy primitive receives (C7)\<close>

text \<open>
  C7. With coordinates \<open>sc\<close> for a source registered with a block shape \<open>sb\<close> of the same
  length, the copy primitive receives the source subscripted by the offsets
  \<open>sc ! k * sb ! k\<close>; likewise for the destination, and for both at once. A side whose
  coordinates are \<^verbatim>\<open>None\<close> is passed whole, whatever the registry holds for it: the
  equations for such a side assume nothing about it, and with both sides \<^verbatim>\<open>None\<close> the
  result is the primitive's on the two whole buffers in every state. The witness
  includes the scenario of the spec: block shape \<open>(16, 16)\<close> and coordinates \<open>(2, 3)\<close> give
  the offset \<open>(32, 48)\<close>.
\<close>

theorem copy_block_offsets:
  "(has_block_shape st src sb \<and> length sc = length sb \<longrightarrow>
      mesh_tensor_copy T_copy st src dst (Some sc) None
        = T_copy (SubView src (map PInt (map2 (*) sc sb))) (Whole dst)
      \<and> length (map2 (*) sc sb) = length sb
      \<and> (\<forall>k < length sb. map2 (*) sc sb ! k = sc ! k * sb ! k))
   \<and> (has_block_shape st dst db \<and> length dc = length db \<longrightarrow>
      mesh_tensor_copy T_copy st src dst None (Some dc)
        = T_copy (Whole src) (SubView dst (map PInt (map2 (*) dc db)))
      \<and> length (map2 (*) dc db) = length db
      \<and> (\<forall>k < length db. map2 (*) dc db ! k = dc ! k * db ! k))
   \<and> (has_block_shape st src sb \<and> length sc = length sb
        \<and> has_block_shape st dst db \<and> length dc = length db \<longrightarrow>
      mesh_tensor_copy T_copy st src dst (Some sc) (Some dc)
        = T_copy (SubView src (map PInt (map2 (*) sc sb)))
                 (SubView dst (map PInt (map2 (*) dc db))))
   \<and> mesh_tensor_copy T_copy st src dst None None = T_copy (Whole src) (Whole dst)"
proof -
  have nth: "length (map2 (*) c bs) = length bs
      \<and> (\<forall>k < length bs. map2 (*) c bs ! k = c ! k * bs ! k)"
    if "length c = length bs" for c bs :: "int list"
    using that by simp
  have one: "mesh_tensor_copy T_copy st src dst (Some sc) None
        = T_copy (SubView src (map PInt (map2 (*) sc sb))) (Whole dst)"
    if "has_block_shape st src sb"
    by (simp add: mesh_tensor_copy_def block_view_ints [OF that] bind_Inr)
  have two: "mesh_tensor_copy T_copy st src dst None (Some dc)
        = T_copy (Whole src) (SubView dst (map PInt (map2 (*) dc db)))"
    if "has_block_shape st dst db"
    by (simp add: mesh_tensor_copy_def block_view_ints [OF that] bind_Inr)
  have both: "mesh_tensor_copy T_copy st src dst (Some sc) (Some dc)
        = T_copy (SubView src (map PInt (map2 (*) sc sb)))
                 (SubView dst (map PInt (map2 (*) dc db)))"
    if s: "has_block_shape st src sb" and d: "has_block_shape st dst db"
    by (simp add: mesh_tensor_copy_def block_view_ints [OF s] block_view_ints [OF d] bind_Inr)
  have none: "mesh_tensor_copy T_copy st src dst None None = T_copy (Whole src) (Whole dst)"
    by (simp add: mesh_tensor_copy_def bind_Inr)
  from nth [of sc sb] nth [of dc db] one two both none show ?thesis
    by blast
qed

theorem copy_block_offsets_witness:
  "mesh_tensor_copy copy_args (snd (annotate_mesh_tensor_info mesh_2x4 [(buf_A, info_A)]))
       buf_A buf_B (Some [2, 3]) None
     = Inr (SubView buf_A [PInt 32, PInt 48], Whole buf_B)
   \<and> mesh_tensor_copy copy_args (snd (annotate_mesh_tensor_info mesh_2x4 [(buf_A, info_A)]))
       buf_B buf_A None (Some [2, 3])
     = Inr (Whole buf_B, SubView buf_A [PInt 32, PInt 48])
   \<and> mesh_tensor_copy copy_args (snd (annotate_mesh_tensor_info mesh_2x4 [(buf_A, info_A)]))
       buf_B buf_B None None
     = Inr (Whole buf_B, Whole buf_B)"
proof -
  have h: "has_block_shape (snd (annotate_mesh_tensor_info mesh_2x4 [(buf_A, info_A)]))
             buf_A [16, 16]"
    unfolding st_A_eq by (simp add: has_block_shape_def info_A_def)
  from copy_block_offsets [of "snd (annotate_mesh_tensor_info mesh_2x4 [(buf_A, info_A)])"
      buf_A "[16, 16]" "[2, 3]" copy_args buf_B "[]" "[]"]
    copy_block_offsets [of "snd (annotate_mesh_tensor_info mesh_2x4 [(buf_A, info_A)])"
      buf_B "[]" "[]" copy_args buf_A "[16, 16]" "[2, 3]"]
    copy_block_offsets [of "snd (annotate_mesh_tensor_info mesh_2x4 [(buf_A, info_A)])"
      buf_B "[]" "[]" copy_args buf_B "[]" "[]"]
    h
  show ?thesis by (simp add: copy_args_def)
qed

subsection \<open>Both mesh axes on one dimension (C8)\<close>

text \<open>
  C8. When the sharding of a registered buffer maps both axes to the same dimension \<open>d\<close>,
  \<^verbatim>\<open>get_tile_shape\<close> raises nothing: the second assignment divides what the first one
  stored, so dimension \<open>d\<close> becomes \<open>ceilDivide (ceilDivide (shape ! d) nx) ny\<close> and every
  other dimension is unchanged.
\<close>

theorem tile_shape_same_dim:
  assumes sh: "has_sharding st b (PInt d) (PInt d)"
    and d: "valid_dim b d"
    and mesh: "mesh_counts st nx ny"
    and pos: "0 < nx" "0 < ny"
  shows "get_tile_shape st b =
           Inr ((shape b)[nat d := ceilDivide (ceilDivide (shape b ! nat d) nx) ny])
         \<and> (\<forall>tile. get_tile_shape st b = Inr tile \<longrightarrow>
               length tile = length (shape b)
               \<and> tile ! nat d = ceilDivide (ceilDivide (shape b ! nat d) nx) ny
               \<and> (\<forall>k < length (shape b). k \<noteq> nat d \<longrightarrow> tile ! k = shape b ! k))"
proof -
  from sh obtain info s where reg: "mesh_tensor_info st (data b) = Some info"
    and s: "getitem info ''sharding'' = Inr s"
    and x: "getitem s ''x'' = Inr (PInt d)" and y: "getitem s ''y'' = Inr (PInt d)"
    by (rule has_shardingD)
  from mesh have mx: "getitem (mesh_shape st) ''x'' = Inr (PInt nx)"
    and my: "getitem (mesh_shape st) ''y'' = Inr (PInt ny)"
    by (simp_all add: mesh_counts_def)
  from d have bd: "0 \<le> d" "d < int (length (shape b))"
    by (simp_all add: valid_dim_def)
  from pos have nz: "nx \<noteq> 0" "ny \<noteq> 0" by simp_all
  from bd have lt: "nat d < length (shape b)" by simp
  have eq: "get_tile_shape st b =
           Inr ((shape b)[nat d := ceilDivide (ceilDivide (shape b ! nat d) nx) ny])"
    using get_tile_shape_registered [OF reg s x y bd bd mx my nz] lt by simp
  show ?thesis using lt by (simp add: eq)
qed

theorem tile_shape_same_dim_witness:
  "get_tile_shape (snd (annotate_mesh_tensor_info mesh_2x4 [(buf_A, info_same_dim)])) buf_A
     = Inr [16, 256]"
proof -
  have a: "snd (annotate_mesh_tensor_info mesh_2x4 [(buf_A, info_same_dim)])
             = mesh_2x4\<lparr>mesh_tensor_info := [data buf_A \<mapsto> info_same_dim]\<rparr>"
    by (simp add: annotate_mesh_tensor_info_def annotate_loop_Cons info_ok_def info_same_dim_def)
  have "get_tile_shape (mesh_2x4\<lparr>mesh_tensor_info := [data buf_A \<mapsto> info_same_dim]\<rparr>) buf_A
          = Inr [16, 256]"
    using tile_shape_same_dim [of "mesh_2x4\<lparr>mesh_tensor_info := [data buf_A \<mapsto> info_same_dim]\<rparr>"
        buf_A 0 2 4, THEN conjunct1]
    by (simp add: has_sharding_def valid_dim_def mesh_counts_def mesh_2x4_def info_same_dim_def
        buf_A_def ceilDivide_def)
  then show ?thesis by (simp only: a)
qed

subsection \<open>Copy and tile shape on an unregistered buffer (C9)\<close>

text \<open>
  C9, as amended. When coordinates are given for a side whose buffer is not registered,
  \<^verbatim>\<open>mesh_tensor_copy\<close> fails with the \<^verbatim>\<open>ValueError\<close> whose message names that buffer
  (the spec's \<open>NotFoundError\<close>): for the source side whatever the destination is, for the
  destination side when the source is passed whole or resolves. \<^verbatim>\<open>get_tile_shape\<close> on an
  unregistered buffer fails with the same error and returns no default. The message has
  one form in all three places and names the buffer only.
\<close>

theorem copy_unregistered:
  assumes "mesh_tensor_info st (data b) = None"
  shows "mesh_tensor_copy T_copy st b dst (Some c) dc = Inl (ValueError (NotFoundMsg b))
         \<and> mesh_tensor_copy T_copy st src b None (Some c) = Inl (ValueError (NotFoundMsg b))
         \<and> (has_block_shape st src bs \<longrightarrow>
              mesh_tensor_copy T_copy st src b (Some c') (Some c)
                = Inl (ValueError (NotFoundMsg b)))
         \<and> get_tile_shape st b = Inl (ValueError (NotFoundMsg b))"
  using assms
  by (simp add: mesh_tensor_copy_def block_view_unregistered block_view_ints bind_Inl bind_Inr
      get_tile_shape_unregistered)

theorem copy_unregistered_witness:
  "mesh_tensor_copy copy_args st_old buf_A buf_B (Some [1, 2]) None
     = Inl (ValueError (NotFoundMsg buf_A))
   \<and> mesh_tensor_copy copy_args st_old buf_B buf_A None (Some [1, 2])
     = Inl (ValueError (NotFoundMsg buf_A))
   \<and> mesh_tensor_copy copy_args st_old buf_B buf_A (Some [0, 0]) (Some [1, 2])
     = Inl (ValueError (NotFoundMsg buf_A))
   \<and> get_tile_shape st_old buf_A = Inl (ValueError (NotFoundMsg buf_A))"
proof -
  have n: "mesh_tensor_info st_old (data buf_A) = None"
    by (simp add: st_old_eq buf_A_def buf_B_def)
  have h: "has_block_shape st_old buf_B [32, 8]"
    by (simp add: has_block_shape_def st_old_eq info_B_def)
  from copy_unregistered [OF n, of copy_args buf_B "[1, 2]" None buf_B "[32, 8]" "[0, 0]"] h
  show ?thesis by simp
qed

text \<open>
  C9 as stated fails where it says the error tells the source side from the destination
  side: a failure on the source side and a failure on the destination side, for the same
  buffer, are the same error.
\<close>

theorem copy_error_does_not_tell_side:
  "mesh_tensor_copy copy_args mesh_2x4 buf_A buf_A (Some [0, 0]) None
     = Inl (ValueError (NotFoundMsg buf_A))
   \<and> mesh_tensor_copy copy_args mesh_2x4 buf_A buf_A None (Some [0, 0])
     = Inl (ValueError (NotFoundMsg buf_A))"
  by (simp add: mesh_tensor_copy_def block_view_def bind_Inl bind_Inr except_KeyError_def
      mesh_2x4_def)

subsection \<open>A registered entry whose sharding is not validated (C10)\<close>

text \<open>
  C10. \<^verbatim>\<open>annotate_mesh_tensor_info\<close> looks at the top-level keys only. A mapping all of whose
  entries have the three keys is accepted although the \<^verbatim>\<open>sharding\<close> \<open>s\<close> of one entry is
  no dictionary or lacks \<^verbatim>\<open>"x"\<close> or \<^verbatim>\<open>"y"\<close>; that entry is then found by lookup, and
  \<^verbatim>\<open>get_tile_shape\<close> on its buffer fails with Python's own \<^verbatim>\<open>KeyError\<close> (a dictionary
  lacking a key) or \<^verbatim>\<open>TypeError\<close> (no dictionary), not with the \<^verbatim>\<open>ValueError\<close> of an
  unregistered buffer.
\<close>

theorem unvalidated_sharding_reachable:
  assumes items: "items = pre @ (b, info) # post"
    and last: "\<forall>bi\<in>set post. data (fst bi) \<noteq> data b"
    and ok: "\<forall>bi\<in>set items. info_ok (snd bi)"
    and s: "getitem info ''sharding'' = Inr s"
    and bad: "\<not> is_dict s \<or> \<not> has_key s ''x'' \<or> \<not> has_key s ''y''"
  shows "fst (annotate_mesh_tensor_info st items) = Inr (FuncAttr (registry_of items Map.empty))
         \<and> lookup_info (snd (annotate_mesh_tensor_info st items)) b = Inr info
         \<and> get_tile_shape (snd (annotate_mesh_tensor_info st items)) b
             = Inl (if is_dict s then KeyError else TypeError)
         \<and> get_tile_shape (snd (annotate_mesh_tensor_info st items)) b
             \<noteq> Inl (ValueError (NotFoundMsg b))"
proof -
  from ok have none: "find (\<lambda>bi. \<not> info_ok (snd bi)) items = None"
    by (auto simp: find_None_iff)
  then have tw: "takeWhile (\<lambda>bi. info_ok (snd bi)) items = items"
    by (rule find_None_takeWhile)
  have res: "fst (annotate_mesh_tensor_info st items)
               = Inr (FuncAttr (registry_of items Map.empty))"
    by (simp add: annotate_eq none tw)
  have r: "mesh_tensor_info (snd (annotate_mesh_tensor_info st items))
             = registry_of items Map.empty"
    by (simp add: annotate_eq tw)
  have "registry_of items Map.empty (data b) = Some info"
    unfolding items using last by (rule registry_of_last)
  then have reg:
    "mesh_tensor_info (snd (annotate_mesh_tensor_info st items)) (data b) = Some info"
    by (simp only: r)
  have look: "lookup_info (snd (annotate_mesh_tensor_info st items)) b = Inr info"
    by (simp add: lookup_info_def reg)
  have tile: "get_tile_shape (snd (annotate_mesh_tensor_info st items)) b
             = Inl (if is_dict s then KeyError else TypeError)"
    using reg s bad by (rule get_tile_shape_bad_sharding)
  from res look tile show ?thesis by simp
qed

theorem unvalidated_sharding_reachable_witness:
  "fst (annotate_mesh_tensor_info mesh_2x4 [(buf_A, info_no_y), (buf_B, info_str_sharding)])
     = Inr (FuncAttr [data buf_A \<mapsto> info_no_y, data buf_B \<mapsto> info_str_sharding])
   \<and> get_tile_shape (snd (annotate_mesh_tensor_info mesh_2x4
         [(buf_A, info_no_y), (buf_B, info_str_sharding)])) buf_A = Inl KeyError
   \<and> get_tile_shape (snd (annotate_mesh_tensor_info mesh_2x4
         [(buf_A, info_no_y), (buf_B, info_str_sharding)])) buf_B = Inl TypeError"
proof -
  have ok: "\<forall>bi\<in>set [(buf_A, info_no_y), (buf_B, info_str_sharding)]. info_ok (snd bi)"
    by (simp add: info_ok_def info_no_y_def info_str_sharding_def)
  have d: "\<forall>bi\<in>set [(buf_B, info_str_sharding)]. data (fst bi) \<noteq> data buf_A"
    by (simp add: buf_A_def buf_B_def)
  have sA: "getitem info_no_y ''sharding'' = Inr (PDict [(''x'', PInt 0)])"
    by (simp add: info_no_y_def)
  have sB: "getitem info_str_sharding ''sharding'' = Inr (PStr ''x'')"
    by (simp add: info_str_sharding_def)
  have A: "get_tile_shape (snd (annotate_mesh_tensor_info mesh_2x4
         [(buf_A, info_no_y), (buf_B, info_str_sharding)])) buf_A = Inl KeyError"
    using unvalidated_sharding_reachable [of _ "[]" buf_A info_no_y
        "[(buf_B, info_str_sharding)]" "PDict [(''x'', PInt 0)]" mesh_2x4, OF _ d _ sA] ok
    by simp
  have B: "get_tile_shape (snd (annotate_mesh_tensor_info mesh_2x4
         [(buf_A, info_no_y), (buf_B, info_str_sharding)])) buf_B = Inl TypeError"
    using unvalidated_sharding_reachable [of _ "[(buf_A, info_no_y)]" buf_B info_str_sharding
        "[]" "PStr ''x''" mesh_2x4, OF _ _ _ sB] ok
    by simp
  have R: "fst (annotate_mesh_tensor_info mesh_2x4 [(buf_A, info_no_y), (buf_B, info_str_sharding)])
     = Inr (FuncAttr [data buf_A \<mapsto> info_no_y, data buf_B \<mapsto> info_str_sharding])"
    using unvalidated_sharding_reachable [of _ "[]" buf_A info_no_y
        "[(buf_B, info_str_sharding)]" "PDict [(''x'', PInt 0)]" mesh_2x4, OF _ d _ sA] ok
    by (simp add: registry_of_Cons registry_of_Nil)
  from R A B show ?thesis by simp
qed

end
